theory Spec2Isabelle
  imports Main "HOL-Library.Word"
begin

section \<open>The decode driver of \<^verbatim>\<open>sample04_decoding.c\<close>\<close>

text \<open>
  The program opens a media container, selects one video and one audio stream, opens their
  decoders, and decodes packet by packet, printing one report block per decoded frame.
  Everything it does is a sequence of calls into the media library, so the embedding makes
  the library an explicit parameter (\<open>Library\<close>: what each library call answers), and the
  program's state an explicit record (\<open>Run\<close>): the global \<^verbatim>\<open>inputFile\<close>, the lines
  printed so far, and the library calls made so far, in order.
\<close>

subsection \<open>Data model\<close>

text \<open>
  Modelled from the spec: the library's enumeration \<^verbatim>\<open>AVMediaType\<close> is declared in a header
  that is not part of the repository; the spec gives a stream the kinds audio, video and other.
\<close>

datatype AVMediaType = AVMEDIA_TYPE_VIDEO | AVMEDIA_TYPE_AUDIO | AVMEDIA_TYPE_OTHER

text \<open>
  The fields of \<^verbatim>\<open>AVCodecContext\<close> that the program reads, and \<open>open2_ret\<close>: the value
  \<^verbatim>\<open>avcodec_open2\<close> returns when it is asked to open this context.
\<close>

record AVCodecContext =
  codec_type :: AVMediaType
  codec_id :: nat
  open2_ret :: int

text \<open>
  \<^verbatim>\<open>fmt_ctx->streams[i]->codec\<close> is \<open>streams c ! i\<close>; \<^verbatim>\<open>fmt_ctx->nb_streams\<close> is the length
  of that list. \<^verbatim>\<open>nb_streams\<close> is an \<^verbatim>\<open>unsigned int\<close>, so a context the program can meet has
  fewer than \<open>2 ^ 32\<close> streams.
\<close>

record AVFormatContext =
  streams :: "AVCodecContext list"

definition nb_streams :: "AVFormatContext \<Rightarrow> nat" where
  "nb_streams c = length (streams c)"

text \<open>
  The global \<^verbatim>\<open>inputFile\<close>. The two indices are C \<^verbatim>\<open>int\<close>s: 32-bit words, read as
  signed by \<open>sint\<close> where the code compares them with 0, and compared bit for bit where the
  code compares them with an \<^verbatim>\<open>unsigned int\<close>.
\<close>

record FileContext =
  fmt_ctx :: "AVFormatContext option"
  v_index :: "32 word"
  a_index :: "32 word"

record AVFrame =
  width :: int
  height :: int
  sar_num :: int
  sar_den :: int
  nb_samples :: int
  channels :: int

text \<open>
  What one call of \<^verbatim>\<open>av_read_frame\<close> answers: its return value and the stream index of the
  packet it leaves in \<^verbatim>\<open>pkt\<close>; and what the decoder answers when that packet is fed to it:
  the return value of the decode function, the value it writes to \<^verbatim>\<open>got_frame\<close>, and the
  frame it leaves in \<^verbatim>\<open>decoded_frame\<close>.
\<close>

record ReadResult =
  read_ret :: int
  stream_index :: "32 word"
  decoded_size :: int
  got_frame :: int
  frame :: AVFrame

text \<open>
  The library, as the program sees it. \<open>avformat_open_input\<close> gives the return value for a
  file name and \<open>container\<close> the context a successful open stores in
  \<^verbatim>\<open>inputFile.fmt_ctx\<close> (a failed open leaves the pointer null);
  \<open>avcodec_find_decoder\<close> says whether a decoder is registered for a codec id;
  \<open>av_frame_alloc\<close> whether the allocation gives a frame; \<open>av_read_frame\<close> answers the
  \<open>k\<close>-th read of the run.
\<close>

record Library =
  avformat_open_input :: "string \<Rightarrow> int"
  container :: AVFormatContext
  avformat_find_stream_info :: int
  avcodec_find_decoder :: "nat \<Rightarrow> bool"
  av_frame_alloc :: bool
  av_read_frame :: "nat \<Rightarrow> ReadResult"

text \<open>
  Modelled from the spec: the macro \<^verbatim>\<open>AVERROR_EOF\<close> is defined in a header of the library
  that is not part of the repository; the spec calls it the end-of-stream signal of the read. The
  value is the one of the library's header, \<^verbatim>\<open>-MKTAG('E','O','F',' ')\<close>; the program only
  compares with it.
\<close>

definition AVERROR_EOF :: int where
  "AVERROR_EOF = - 541478725"

text \<open>
  The library calls, as events. A codec context is named by the position of its stream.
  \<open>Release\<close> marks an entry into the program's own routine \<^verbatim>\<open>release\<close>.
\<close>

datatype libcall =
    Av_register_all
  | Av_log_set_level
  | Avformat_open_input string
  | Avformat_find_stream_info
  | Avcodec_find_decoder nat
  | Avcodec_open2 nat
  | Avcodec_close nat
  | Avformat_close_input
  | Av_frame_alloc
  | Av_read_frame
  | Av_free_packet
  | Av_packet_rescale_ts nat
  | Avcodec_decode_video2 nat
  | Avcodec_decode_audio4 nat
  | Av_frame_get_best_effort_timestamp
  | Av_frame_unref
  | Av_frame_free
  | Release

text \<open>The \<^verbatim>\<open>printf\<close> calls of the program, one constructor per format string.\<close>

datatype line =
    Usage string
  | Could_not_open string
  | Failed_stream_info
  | End_of_frame
  | Separator
  | Video_size int int
  | Video_sar int int
  | Audio_samples int
  | Audio_channels int

record Run =
  inputFile :: FileContext
  out :: "line list"
  calls :: "libcall list"

text \<open>What C leaves undefined and the program can reach.\<close>

datatype fault = Null_dereference | Out_of_bounds

datatype 'a ctl = Continue 'a | Break 'a | Crash fault

definition printf :: "line \<Rightarrow> Run \<Rightarrow> Run" where
  "printf l st = st\<lparr>out := out st @ [l]\<rparr>"

definition invoke :: "libcall \<Rightarrow> Run \<Rightarrow> Run" where
  "invoke e st = st\<lparr>calls := calls st @ [e]\<rparr>"

text \<open>\<^verbatim>\<open>inputFile\<close> has static storage: it starts zeroed.\<close>

definition init :: Run where
  "init = \<lparr>inputFile = \<lparr>fmt_ctx = None, v_index = 0, a_index = 0\<rparr>, out = [], calls = []\<rparr>"

text \<open>The state after the first two calls of \<^verbatim>\<open>main\<close>, in which it looks at its arguments.\<close>

definition started :: Run where
  "started = invoke Av_log_set_level (invoke Av_register_all init)"

subsection \<open>Opening the input\<close>

text \<open>
  \<^verbatim>\<open>open_decoder(codec_ctx)\<close>. The pointer is the pair of the stream's position and the
  context found there.
\<close>

definition open_decoder :: "Library \<Rightarrow> nat \<times> AVCodecContext \<Rightarrow> Run \<Rightarrow> int \<times> Run" where
  "open_decoder L ptr st =
     (case ptr of (p, codec_ctx) \<Rightarrow>
        let st1 = invoke (Avcodec_find_decoder (codec_id codec_ctx)) st in
        if \<not> avcodec_find_decoder L (codec_id codec_ctx) then (- 1, st1)
        else
          let st2 = invoke (Avcodec_open2 p) st1 in
          if open2_ret codec_ctx < 0 then (- 2, st2)
          else (0, st2))"

definition set_v_index :: "32 word \<Rightarrow> Run \<Rightarrow> Run" where
  "set_v_index i st = st\<lparr>inputFile := (inputFile st)\<lparr>v_index := i\<rparr>\<rparr>"

definition set_a_index :: "32 word \<Rightarrow> Run \<Rightarrow> Run" where
  "set_a_index i st = st\<lparr>inputFile := (inputFile st)\<lparr>a_index := i\<rparr>\<rparr>"

definition set_fmt_ctx :: "AVFormatContext option \<Rightarrow> Run \<Rightarrow> Run" where
  "set_fmt_ctx c st = st\<lparr>inputFile := (inputFile st)\<lparr>fmt_ctx := c\<rparr>\<rparr>"

text \<open>
  The \<^verbatim>\<open>for\<close> loop of \<^verbatim>\<open>open_input\<close>, from \<open>index\<close> on. The loop variable is an
  \<^verbatim>\<open>unsigned int\<close> below \<^verbatim>\<open>nb_streams\<close>, so \<^verbatim>\<open>index++\<close> never wraps; the assignment to
  the \<^verbatim>\<open>int\<close> field keeps the bits (\<open>word_of_nat\<close>). \<^verbatim>\<open>break\<close> returns the state as it is.
\<close>

function scan_streams :: "Library \<Rightarrow> AVFormatContext \<Rightarrow> nat \<Rightarrow> Run \<Rightarrow> Run" where
  "scan_streams L c index st =
     (if index < nb_streams c then
        let codec_ctx = streams c ! index in
        if codec_type codec_ctx = AVMEDIA_TYPE_VIDEO \<and> sint (v_index (inputFile st)) < 0 then
          (case open_decoder L (index, codec_ctx) st of (r, st1) \<Rightarrow>
             if r < 0 then st1
             else scan_streams L c (Suc index) (set_v_index (word_of_nat index) st1))
        else if codec_type codec_ctx = AVMEDIA_TYPE_AUDIO \<and> sint (a_index (inputFile st)) < 0 then
          (case open_decoder L (index, codec_ctx) st of (r, st1) \<Rightarrow>
             if r < 0 then st1
             else scan_streams L c (Suc index) (set_a_index (word_of_nat index) st1))
        else scan_streams L c (Suc index) st
      else st)"
  by pat_completeness auto
termination
  by (relation "measure (\<lambda>(L, c, index, st). nb_streams c - index)") auto

declare scan_streams.simps [simp del]

text \<open>
  \<^verbatim>\<open>open_input(filename)\<close>. The last test is the source's:
  \<^verbatim>\<open>inputFile.a_index < 0 && inputFile.a_index < 0\<close>.
\<close>

definition open_input :: "Library \<Rightarrow> string \<Rightarrow> Run \<Rightarrow> int \<times> Run" where
  "open_input L filename st =
     (let st1 = set_a_index (- 1) (set_v_index (- 1) (set_fmt_ctx None st));
          st2 = invoke (Avformat_open_input filename) st1 in
      if avformat_open_input L filename < 0 then (- 1, printf (Could_not_open filename) st2)
      else
        let c = container L;
            st3 = invoke Avformat_find_stream_info (set_fmt_ctx (Some c) st2) in
        if avformat_find_stream_info L < 0 then (- 2, printf Failed_stream_info st3)
        else
          let st4 = scan_streams L c 0 st3 in
          if sint (a_index (inputFile st4)) < 0 \<and> sint (a_index (inputFile st4)) < 0
          then (- 3, printf Failed_stream_info st4)
          else (0, st4))"

subsection \<open>Releasing\<close>

text \<open>
  The loop of \<^verbatim>\<open>release\<close>. \<^verbatim>\<open>index == inputFile.v_index\<close> compares an
  \<^verbatim>\<open>unsigned int\<close> with an \<^verbatim>\<open>int\<close>: the \<^verbatim>\<open>int\<close> is converted, so the bits are compared.
\<close>

function close_codecs :: "AVFormatContext \<Rightarrow> nat \<Rightarrow> Run \<Rightarrow> Run" where
  "close_codecs c index st =
     (if index < nb_streams c then
        if word_of_nat index = v_index (inputFile st) \<or> word_of_nat index = a_index (inputFile st)
        then close_codecs c (Suc index) (invoke (Avcodec_close index) st)
        else close_codecs c (Suc index) st
      else st)"
  by pat_completeness auto
termination
  by (relation "measure (\<lambda>(c, index, st). nb_streams c - index)") auto

declare close_codecs.simps [simp del]

text \<open>\<^verbatim>\<open>release\<close>. \<^verbatim>\<open>avformat_close_input\<close> frees the context and sets the pointer it is given
  to null.\<close>

definition release :: "Run \<Rightarrow> Run" where
  "release st =
     (let st0 = invoke Release st in
      case fmt_ctx (inputFile st0) of
        None \<Rightarrow> st0
      | Some c \<Rightarrow> set_fmt_ctx None (invoke Avformat_close_input (close_codecs c 0 st0)))"

subsection \<open>Decoding\<close>

text \<open>
  \<^verbatim>\<open>decode_packet\<close>: the decode function is chosen by the kind of the context; the result
  is the decoder's return value and the \<^verbatim>\<open>got_frame\<close> it wrote.
\<close>

definition decode_packet :: "nat \<times> AVCodecContext \<Rightarrow> ReadResult \<Rightarrow> Run \<Rightarrow> int \<times> int \<times> Run" where
  "decode_packet ptr rd st =
     (case ptr of (p, codec_ctx) \<Rightarrow>
        let st1 = invoke (if codec_type codec_ctx = AVMEDIA_TYPE_VIDEO
                          then Avcodec_decode_video2 p else Avcodec_decode_audio4 p) st;
            st2 = (if got_frame rd \<noteq> 0 then invoke Av_frame_get_best_effort_timestamp st1 else st1)
        in (decoded_size rd, got_frame rd, st2))"

definition report :: "AVCodecContext \<Rightarrow> AVFrame \<Rightarrow> Run \<Rightarrow> Run" where
  "report codec_ctx f st =
     (if codec_type codec_ctx = AVMEDIA_TYPE_VIDEO
      then printf (Video_sar (sar_num f) (sar_den f)) (printf (Video_size (width f) (height f)) st)
      else printf (Audio_channels (channels f)) (printf (Audio_samples (nb_samples f)) st))"

text \<open>
  One pass through the body of \<^verbatim>\<open>while(1)\<close>, at the \<open>k\<close>-th read. \<^verbatim>\<open>streams[pkt.stream_index]\<close>
  is defined only for an index inside the array, and \<^verbatim>\<open>inputFile.fmt_ctx->\<close> only for a
  pointer that is not null.
\<close>

definition loop_body :: "Library \<Rightarrow> nat \<Rightarrow> Run \<Rightarrow> Run ctl" where
  "loop_body L k st =
     (let rd = av_read_frame L k;
          st1 = invoke Av_read_frame st in
      if read_ret rd = AVERROR_EOF then Break (printf End_of_frame st1)
      else if stream_index rd \<noteq> v_index (inputFile st1) \<and> stream_index rd \<noteq> a_index (inputFile st1)
      then Continue (invoke Av_free_packet st1)
      else
        (case fmt_ctx (inputFile st1) of
           None \<Rightarrow> Crash Null_dereference
         | Some c \<Rightarrow>
             if \<not> (0 \<le> sint (stream_index rd) \<and> nat (sint (stream_index rd)) < nb_streams c)
             then Crash Out_of_bounds
             else
               let p = nat (sint (stream_index rd));
                   codec_ctx = streams c ! p;
                   st2 = invoke (Av_packet_rescale_ts p) st1 in
               (case decode_packet (p, codec_ctx) rd st2 of (ret, got, st3) \<Rightarrow>
                  let st4 = (if ret \<ge> 0 \<and> got \<noteq> 0
                             then invoke Av_frame_unref (report codec_ctx (frame rd) (printf Separator st3))
                             else st3)
                  in Continue (invoke Av_free_packet st4))))"

text \<open>
  \<^verbatim>\<open>while(1)\<close>: the loop need not end, so it is a partial function; \<open>None\<close> is a run that
  reads for ever.
\<close>

partial_function (option) decode_loop :: "Library \<Rightarrow> nat \<Rightarrow> Run \<Rightarrow> (fault + Run) option" where
  "decode_loop L k st =
     (case loop_body L k st of
        Break st' \<Rightarrow> Some (Inr st')
      | Crash f \<Rightarrow> Some (Inl f)
      | Continue st' \<Rightarrow> decode_loop L (Suc k) st')"

declare decode_loop.simps [code]

subsection \<open>The program\<close>

text \<open>
  \<^verbatim>\<open>main\<close>, on the argument vector (\<^verbatim>\<open>argc\<close> is its length). The result is the exit status
  with the final state, a fault, or \<open>None\<close> when the decode loop never ends. With an empty
  argument vector \<^verbatim>\<open>argv[0]\<close> is a null pointer handed to \<^verbatim>\<open>%s\<close>.
\<close>

definition main :: "Library \<Rightarrow> string list \<Rightarrow> (fault + int \<times> Run) option" where
  "main L argv =
     (let st0 = started in
      if length argv < 2 then
        (case argv of
           [] \<Rightarrow> Some (Inl Null_dereference)
         | a # _ \<Rightarrow> Some (Inr (0, printf (Usage a) st0)))
      else
        (case open_input L (argv ! 1) st0 of (r, st1) \<Rightarrow>
           if r < 0 then Some (Inr (0, release st1))
           else
             let st2 = invoke Av_frame_alloc st1 in
             if \<not> av_frame_alloc L then Some (Inr (0, release st2))
             else
               (case decode_loop L 0 st2 of
                  None \<Rightarrow> None
                | Some (Inl f) \<Rightarrow> Some (Inl f)
                | Some (Inr st3) \<Rightarrow> Some (Inr (0, release (invoke Av_frame_free st3))))))"

subsection \<open>Vocabulary of the properties\<close>

definition is_decode :: "libcall \<Rightarrow> bool" where
  "is_decode e = (case e of Avcodec_decode_video2 _ \<Rightarrow> True | Avcodec_decode_audio4 _ \<Rightarrow> True | _ \<Rightarrow> False)"

definition count_decodes :: "libcall list \<Rightarrow> nat" where
  "count_decodes es = length (filter is_decode es)"

text \<open>A packet's stream index is one of the selected ones: it is the video or the audio index,
  and that index has been set (is not negative).\<close>

definition on_selected :: "FileContext \<Rightarrow> 32 word \<Rightarrow> bool" where
  "on_selected f i \<longleftrightarrow>
     (i = v_index f \<and> 0 \<le> sint (v_index f)) \<or> (i = a_index f \<and> 0 \<le> sint (a_index f))"

text \<open>The packets of a run that made \<open>n\<close> reads are those of the reads before the last one,
  which was the end of the stream.\<close>

definition packets_on_selected :: "Library \<Rightarrow> FileContext \<Rightarrow> nat \<Rightarrow> nat" where
  "packets_on_selected L f n =
     length (filter (\<lambda>j. on_selected f (stream_index (av_read_frame L j))) [0..<n - 1])"

definition first_of_kind :: "AVMediaType \<Rightarrow> AVFormatContext \<Rightarrow> nat \<Rightarrow> bool" where
  "first_of_kind t c p \<longleftrightarrow>
     p < nb_streams c \<and> codec_type (streams c ! p) = t \<and>
     (\<forall>j \<in> set [0..<p]. codec_type (streams c ! j) \<noteq> t)"

definition decoder_opens :: "Library \<Rightarrow> AVCodecContext \<Rightarrow> bool" where
  "decoder_opens L x \<longleftrightarrow> avcodec_find_decoder L (codec_id x) \<and> 0 \<le> open2_ret x"

text \<open>An index field is in order for its kind: it is \<open>-1\<close>, or it is the position of the first
  stream of the kind, whose decoder the library opens and the run has opened.\<close>

definition selected_ok :: "AVMediaType \<Rightarrow> Library \<Rightarrow> libcall list \<Rightarrow> 32 word \<Rightarrow> bool" where
  "selected_ok t L es i \<longleftrightarrow>
     i = - 1 \<or>
     (0 \<le> sint i \<and> first_of_kind t (container L) (nat (sint i)) \<and>
      decoder_opens L (streams (container L) ! nat (sint i)) \<and>
      Avcodec_open2 (nat (sint i)) \<in> set es)"

definition selection_inv :: "Library \<Rightarrow> Run \<Rightarrow> bool" where
  "selection_inv L st \<longleftrightarrow>
     selected_ok AVMEDIA_TYPE_VIDEO L (calls st) (v_index (inputFile st)) \<and>
     selected_ok AVMEDIA_TYPE_AUDIO L (calls st) (a_index (inputFile st)) \<and>
     (fmt_ctx (inputFile st) = None \<or> fmt_ctx (inputFile st) = Some (container L))"

text \<open>The positions \<^verbatim>\<open>release\<close> is expected to close: those of the selected streams.\<close>

definition selected_positions :: "FileContext \<Rightarrow> nat \<Rightarrow> nat list" where
  "selected_positions f n =
     filter (\<lambda>p. (0 \<le> sint (v_index f) \<and> p = nat (sint (v_index f))) \<or>
                  (0 \<le> sint (a_index f) \<and> p = nat (sint (a_index f)))) [0..<n]"

definition video_blocks :: "line list \<Rightarrow> nat" where
  "video_blocks ls = length (filter (\<lambda>l. case l of Video_size _ _ \<Rightarrow> True | _ \<Rightarrow> False) ls)"

definition audio_blocks :: "line list \<Rightarrow> nat" where
  "audio_blocks ls = length (filter (\<lambda>l. case l of Audio_samples _ \<Rightarrow> True | _ \<Rightarrow> False) ls)"

text \<open>What the scan of \<^verbatim>\<open>open_input\<close> may call, and when a stream is a candidate of its
  first and of its second branch.\<close>

definition is_open_attempt :: "libcall \<Rightarrow> bool" where
  "is_open_attempt e = (case e of Avcodec_find_decoder _ \<Rightarrow> True | Avcodec_open2 _ \<Rightarrow> True | _ \<Rightarrow> False)"

definition video_candidate :: "AVCodecContext \<Rightarrow> Run \<Rightarrow> bool" where
  "video_candidate x st \<longleftrightarrow> codec_type x = AVMEDIA_TYPE_VIDEO \<and> sint (v_index (inputFile st)) < 0"

definition audio_candidate :: "AVCodecContext \<Rightarrow> Run \<Rightarrow> bool" where
  "audio_candidate x st \<longleftrightarrow>
     \<not> video_candidate x st \<and> codec_type x = AVMEDIA_TYPE_AUDIO \<and> sint (a_index (inputFile st)) < 0"

text \<open>What one pass of the decode loop calls and prints for a packet it feeds to the decoder of
  context \<open>c\<close>.\<close>

definition decode_event :: "AVFormatContext \<Rightarrow> nat \<Rightarrow> libcall" where
  "decode_event c p =
     (if codec_type (streams c ! p) = AVMEDIA_TYPE_VIDEO
      then Avcodec_decode_video2 p else Avcodec_decode_audio4 p)"

definition decode_calls :: "AVFormatContext \<Rightarrow> ReadResult \<Rightarrow> libcall list" where
  "decode_calls c rd =
     [Av_read_frame, Av_packet_rescale_ts (nat (sint (stream_index rd))),
      decode_event c (nat (sint (stream_index rd)))] @
     (if got_frame rd \<noteq> 0 then [Av_frame_get_best_effort_timestamp] else []) @
     (if 0 \<le> decoded_size rd \<and> got_frame rd \<noteq> 0 then [Av_frame_unref] else []) @
     [Av_free_packet]"

definition report_lines :: "AVFormatContext \<Rightarrow> ReadResult \<Rightarrow> line list" where
  "report_lines c rd =
     (if 0 \<le> decoded_size rd \<and> got_frame rd \<noteq> 0 then
        Separator #
        (if codec_type (streams c ! nat (sint (stream_index rd))) = AVMEDIA_TYPE_VIDEO
         then [Video_size (width (frame rd)) (height (frame rd)),
               Video_sar (sar_num (frame rd)) (sar_den (frame rd))]
         else [Audio_samples (nb_samples (frame rd)), Audio_channels (channels (frame rd))])
      else [])"

text \<open>The packet of a read is routed to a decoder: it passes the test of lines 200-201.\<close>

definition routed :: "FileContext \<Rightarrow> ReadResult \<Rightarrow> bool" where
  "routed f rd \<longleftrightarrow> stream_index rd = v_index f \<or> stream_index rd = a_index f"

text \<open>The index of the packet lies inside the array of streams.\<close>

definition in_range :: "AVFormatContext \<Rightarrow> ReadResult \<Rightarrow> bool" where
  "in_range c rd \<longleftrightarrow> 0 \<le> sint (stream_index rd) \<and> nat (sint (stream_index rd)) < nb_streams c"

text \<open>The positions the loop of \<^verbatim>\<open>release\<close> closes, from \<open>index\<close> on.\<close>

definition closed_positions :: "FileContext \<Rightarrow> nat \<Rightarrow> nat \<Rightarrow> nat list" where
  "closed_positions f index n =
     filter (\<lambda>p. word_of_nat p = v_index f \<or> word_of_nat p = a_index f) [index..<n]"

text \<open>The calls \<^verbatim>\<open>open_input\<close> may make.\<close>

definition is_setup_call :: "libcall \<Rightarrow> bool" where
  "is_setup_call e =
     (case e of Avformat_open_input _ \<Rightarrow> True | Avformat_find_stream_info \<Rightarrow> True
      | Avcodec_find_decoder _ \<Rightarrow> True | Avcodec_open2 _ \<Rightarrow> True | _ \<Rightarrow> False)"

text \<open>The state in which \<^verbatim>\<open>main\<close> enters the decode loop, when it does.\<close>

definition decoding :: "Library \<Rightarrow> string \<Rightarrow> Run" where
  "decoding L filename = invoke Av_frame_alloc (snd (open_input L filename started))"

text \<open>Every stream whose decoder the run has opened is named by one of the two index fields.\<close>

definition opened_are_selected :: "Library \<Rightarrow> Run \<Rightarrow> bool" where
  "opened_are_selected L st \<longleftrightarrow>
     (\<forall>e \<in> set (calls st).
        case e of
          Avcodec_open2 p \<Rightarrow>
            decoder_opens L (streams (container L) ! p) \<longrightarrow>
            word_of_nat p = v_index (inputFile st) \<or> word_of_nat p = a_index (inputFile st)
        | _ \<Rightarrow> True)"

text \<open>The state of an index field when the scan has come to stream \<open>i\<close>: no stream of the kind
  before \<open>i\<close> and the field still \<open>-1\<close>, or the field names the first stream of the kind, which
  lies before \<open>i\<close> and whose decoder has been opened.\<close>

definition scanned_ok :: "AVMediaType \<Rightarrow> Library \<Rightarrow> nat \<Rightarrow> libcall list \<Rightarrow> 32 word \<Rightarrow> bool" where
  "scanned_ok t L i es idx \<longleftrightarrow>
     (idx = - 1 \<and> (\<forall>j \<in> set [0..<i]. codec_type (streams (container L) ! j) \<noteq> t)) \<or>
     (0 \<le> sint idx \<and> nat (sint idx) < i \<and> first_of_kind t (container L) (nat (sint idx)) \<and>
      decoder_opens L (streams (container L) ! nat (sint idx)) \<and>
      Avcodec_open2 (nat (sint idx)) \<in> set es)"

text \<open>The invariant of the scan, for a container with at most \<open>2 ^ 31\<close> streams, so that every
  position is a nonnegative \<^verbatim>\<open>int\<close>.\<close>

definition scan_inv :: "Library \<Rightarrow> nat \<Rightarrow> Run \<Rightarrow> bool" where
  "scan_inv L i st \<longleftrightarrow>
     scanned_ok AVMEDIA_TYPE_VIDEO L i (calls st) (v_index (inputFile st)) \<and>
     scanned_ok AVMEDIA_TYPE_AUDIO L i (calls st) (a_index (inputFile st)) \<and>
     (\<forall>p. Avcodec_open2 p \<in> set (calls st) \<longrightarrow> p < i \<and>
        (decoder_opens L (streams (container L) ! p) \<longrightarrow>
           word_of_nat p = v_index (inputFile st) \<or> word_of_nat p = a_index (inputFile st)))"

definition scan_post :: "Library \<Rightarrow> Run \<Rightarrow> bool" where
  "scan_post L st \<longleftrightarrow>
     selected_ok AVMEDIA_TYPE_VIDEO L (calls st) (v_index (inputFile st)) \<and>
     selected_ok AVMEDIA_TYPE_AUDIO L (calls st) (a_index (inputFile st)) \<and>
     opened_are_selected L st"

subsection \<open>Concrete inputs\<close>

definition video_ctx :: AVCodecContext where
  "video_ctx = \<lparr>codec_type = AVMEDIA_TYPE_VIDEO, codec_id = 28, open2_ret = 0\<rparr>"

definition audio_ctx :: AVCodecContext where
  "audio_ctx = \<lparr>codec_type = AVMEDIA_TYPE_AUDIO, codec_id = 86018, open2_ret = 0\<rparr>"

definition broken_video_ctx :: AVCodecContext where
  "broken_video_ctx = \<lparr>codec_type = AVMEDIA_TYPE_VIDEO, codec_id = 28, open2_ret = - 22\<rparr>"

definition a_frame :: AVFrame where
  "a_frame = \<lparr>width = 640, height = 480, sar_num = 1, sar_den = 1, nb_samples = 1024, channels = 2\<rparr>"

text \<open>A packet of stream \<open>i\<close> that its decoder turns into one frame.\<close>

definition packet :: "32 word \<Rightarrow> ReadResult" where
  "packet i = \<lparr>read_ret = 0, stream_index = i, decoded_size = 100, got_frame = 1, frame = a_frame\<rparr>"

definition end_of_stream :: ReadResult where
  "end_of_stream =
     \<lparr>read_ret = AVERROR_EOF, stream_index = 0, decoded_size = 0, got_frame = 0, frame = a_frame\<rparr>"

text \<open>A library in which every call succeeds, for a container with the streams \<open>ss\<close> whose
  reads are \<open>rd\<close>.\<close>

definition library :: "AVCodecContext list \<Rightarrow> (nat \<Rightarrow> ReadResult) \<Rightarrow> Library" where
  "library ss rd =
     \<lparr>avformat_open_input = (\<lambda>_. 0), container = \<lparr>streams = ss\<rparr>, avformat_find_stream_info = 0,
      avcodec_find_decoder = (\<lambda>_. True), av_frame_alloc = True, av_read_frame = rd\<rparr>"

text \<open>Two seconds of video at 25 frames a second, no audio: 50 packets, then the end.\<close>

definition video_2s_25fps :: Library where
  "video_2s_25fps = library [video_ctx] (\<lambda>k. if k < 50 then packet 0 else end_of_stream)"

text \<open>An audio and a video stream, three packets.\<close>

definition audio_video :: Library where
  "audio_video =
     library [audio_ctx, video_ctx] (\<lambda>k. if k < 3 then packet (word_of_nat (k mod 2)) else end_of_stream)"

text \<open>The scan stops at a stream whose decoder does not open; a later video stream is fine.\<close>

definition broken_then_good :: Library where
  "broken_then_good =
     library [broken_video_ctx, video_ctx] (\<lambda>k. if k < 50 then packet 1 else end_of_stream)"

text \<open>The state in which the scan of \<^verbatim>\<open>open_input\<close> starts on an opened and probed container.\<close>

definition probed :: "Library \<Rightarrow> string \<Rightarrow> Run" where
  "probed L filename =
     invoke Avformat_find_stream_info
       (set_fmt_ctx (Some (container L))
          (invoke (Avformat_open_input filename)
             (set_a_index (- 1) (set_v_index (- 1) (set_fmt_ctx None started)))))"

text \<open>A read that fails with \<^verbatim>\<open>AVERROR(EIO)\<close> and leaves a packet of stream 0 that the decoder
  takes; and one that the decoder rejects.\<close>

definition failed_read :: ReadResult where
  "failed_read = \<lparr>read_ret = - 5, stream_index = 0, decoded_size = 100, got_frame = 1, frame = a_frame\<rparr>"

definition undecodable :: ReadResult where
  "undecodable =
     \<lparr>read_ret = 0, stream_index = 0, decoded_size = - 1094995529, got_frame = 0, frame = a_frame\<rparr>"

definition audio_only :: Library where
  "audio_only =
     library [audio_ctx]
       (\<lambda>k. if k = 0 then failed_read else if k = 1 then undecodable else end_of_stream)"

text \<open>The same library, with a read replaced.\<close>

definition with_read :: "Library \<Rightarrow> nat \<Rightarrow> ReadResult \<Rightarrow> Library" where
  "with_read L k rd = L\<lparr>av_read_frame := (av_read_frame L)(k := rd)\<rparr>"

text \<open>An audio, a video and a subtitle stream; four packets, one of them of the subtitle stream.\<close>

definition subtitle_ctx :: AVCodecContext where
  "subtitle_ctx = \<lparr>codec_type = AVMEDIA_TYPE_OTHER, codec_id = 94213, open2_ret = 0\<rparr>"

definition with_subtitles :: Library where
  "with_subtitles =
     library [audio_ctx, video_ctx, subtitle_ctx]
       (\<lambda>k. if k < 4 then packet (word_of_nat (k mod 3)) else end_of_stream)"

text \<open>The audio container, with a library that cannot allocate the frame.\<close>

definition no_frame :: Library where
  "no_frame = audio_only\<lparr>av_frame_alloc := False\<rparr>"

text \<open>A library that cannot open the file.\<close>

definition not_a_media_file :: Library where
  "not_a_media_file = audio_only\<lparr>avformat_open_input := (\<lambda>_. - 1094995529)\<rparr>"

text \<open>A video, an audio and a second video stream.\<close>

definition two_videos :: Library where
  "two_videos =
     library [video_ctx, audio_ctx, video_ctx]
       (\<lambda>k. if k < 2 then packet (word_of_nat k) else end_of_stream)"

section \<open>Properties\<close>

subsection \<open>Machine integers\<close>

lemma sint_word_of_nat:
  assumes "p < 2 ^ 31"
  shows "sint (word_of_nat p :: 32 word) = int p"
proof -
  have "signed_take_bit 31 (int p) = int p"
    using assms by (intro signed_take_bit_int_eq_self) auto
  then show ?thesis
    by (simp add: signed_of_nat)
qed

lemma word_of_nat_inj32:
  assumes "p < 2 ^ 32" and "q < 2 ^ 32" and "(word_of_nat p :: 32 word) = word_of_nat q"
  shows "p = q"
proof -
  have "take_bit 32 p = take_bit 32 q"
    using assms(3) by (simp add: word_of_nat_eq_iff)
  then show ?thesis
    using assms(1,2) by (simp add: take_bit_nat_eq_self)
qed

lemma word_of_nat_neq_minus_one:
  assumes "p < 2 ^ 32 - 1"
  shows "(word_of_nat p :: 32 word) \<noteq> - 1"
proof
  assume "(word_of_nat p :: 32 word) = - 1"
  then have "(word_of_nat p :: 32 word) = word_of_nat (2 ^ 32 - 1)"
    by simp
  then have "p = 2 ^ 32 - 1"
    using assms by (intro word_of_nat_inj32) auto
  then show False
    using assms by simp
qed

subsection \<open>State updates\<close>

lemma printf_simps [simp]:
  "inputFile (printf l st) = inputFile st"
  "out (printf l st) = out st @ [l]"
  "calls (printf l st) = calls st"
  by (simp_all add: printf_def)

lemma invoke_simps [simp]:
  "inputFile (invoke e st) = inputFile st"
  "out (invoke e st) = out st"
  "calls (invoke e st) = calls st @ [e]"
  by (simp_all add: invoke_def)

lemma set_v_index_simps [simp]:
  "v_index (inputFile (set_v_index i st)) = i"
  "a_index (inputFile (set_v_index i st)) = a_index (inputFile st)"
  "fmt_ctx (inputFile (set_v_index i st)) = fmt_ctx (inputFile st)"
  "out (set_v_index i st) = out st"
  "calls (set_v_index i st) = calls st"
  by (simp_all add: set_v_index_def)

lemma set_a_index_simps [simp]:
  "a_index (inputFile (set_a_index i st)) = i"
  "v_index (inputFile (set_a_index i st)) = v_index (inputFile st)"
  "fmt_ctx (inputFile (set_a_index i st)) = fmt_ctx (inputFile st)"
  "out (set_a_index i st) = out st"
  "calls (set_a_index i st) = calls st"
  by (simp_all add: set_a_index_def)

lemma set_fmt_ctx_simps [simp]:
  "fmt_ctx (inputFile (set_fmt_ctx c st)) = c"
  "v_index (inputFile (set_fmt_ctx c st)) = v_index (inputFile st)"
  "a_index (inputFile (set_fmt_ctx c st)) = a_index (inputFile st)"
  "out (set_fmt_ctx c st) = out st"
  "calls (set_fmt_ctx c st) = calls st"
  by (simp_all add: set_fmt_ctx_def)

lemma started_simps [simp]:
  "out started = []"
  "calls started = [Av_register_all, Av_log_set_level]"
  "fmt_ctx (inputFile started) = None"
  by (simp_all add: started_def init_def)

lemmas example_defs =
  video_2s_25fps_def audio_video_def library_def video_ctx_def audio_ctx_def broken_video_ctx_def
  packet_def end_of_stream_def a_frame_def broken_then_good_def probed_def failed_read_def
  undecodable_def audio_only_def with_read_def subtitle_ctx_def with_subtitles_def no_frame_def
  not_a_media_file_def two_videos_def

lemmas program_defs =
  main_def open_input_def open_decoder_def release_def loop_body_def decode_packet_def report_def
  printf_def invoke_def init_def started_def set_v_index_def set_a_index_def set_fmt_ctx_def
  nb_streams_def AVERROR_EOF_def Let_def scan_streams.simps close_codecs.simps

subsection \<open>The scan over the streams\<close>

lemma open_decoder_fails_iff:
  "fst (open_decoder L (p, x) st) < 0 \<longleftrightarrow> \<not> decoder_opens L x"
  by (simp add: open_decoder_def decoder_opens_def Let_def)

lemma open_decoder_state:
  assumes "open_decoder L (p, x) st = (r, st1)"
  shows "inputFile st1 = inputFile st" and "out st1 = out st"
    and "calls st1 = calls st @ (if avcodec_find_decoder L (codec_id x)
                             then [Avcodec_find_decoder (codec_id x), Avcodec_open2 p]
                             else [Avcodec_find_decoder (codec_id x)])"
  using assms by (auto simp: open_decoder_def Let_def split: if_splits)

lemma open_decoder_ok:
  assumes "open_decoder L (p, x) st = (r, st1)" and "\<not> r < 0"
  shows "decoder_opens L x" and "calls st1 = calls st @ [Avcodec_find_decoder (codec_id x), Avcodec_open2 p]"
  using assms by (auto simp: open_decoder_def decoder_opens_def Let_def split: if_splits)

lemma scan_streams_end:
  "\<not> index < nb_streams c \<Longrightarrow> scan_streams L c index st = st"
  by (subst scan_streams.simps) simp

lemma scan_streams_video:
  assumes "index < nb_streams c" and "video_candidate (streams c ! index) st"
  shows "scan_streams L c index st =
     (case open_decoder L (index, streams c ! index) st of (r, st1) \<Rightarrow>
        if r < 0 then st1 else scan_streams L c (Suc index) (set_v_index (word_of_nat index) st1))"
  using assms by (subst scan_streams.simps) (simp add: video_candidate_def)

lemma scan_streams_audio:
  assumes "index < nb_streams c" and "audio_candidate (streams c ! index) st"
  shows "scan_streams L c index st =
     (case open_decoder L (index, streams c ! index) st of (r, st1) \<Rightarrow>
        if r < 0 then st1 else scan_streams L c (Suc index) (set_a_index (word_of_nat index) st1))"
  using assms by (subst scan_streams.simps) (auto simp add: video_candidate_def audio_candidate_def)

lemma scan_streams_skip:
  assumes "index < nb_streams c"
    and "\<not> video_candidate (streams c ! index) st" and "\<not> audio_candidate (streams c ! index) st"
  shows "scan_streams L c index st = scan_streams L c (Suc index) st"
  using assms by (subst scan_streams.simps) (auto simp add: video_candidate_def audio_candidate_def)

lemma scan_streams_rule:
  assumes init: "P index st"
    and video: "\<And>i st r st1. i < nb_streams c \<Longrightarrow> P i st \<Longrightarrow> video_candidate (streams c ! i) st \<Longrightarrow>
        open_decoder L (i, streams c ! i) st = (r, st1) \<Longrightarrow> \<not> r < 0 \<Longrightarrow>
        P (Suc i) (set_v_index (word_of_nat i) st1)"
    and audio: "\<And>i st r st1. i < nb_streams c \<Longrightarrow> P i st \<Longrightarrow> audio_candidate (streams c ! i) st \<Longrightarrow>
        open_decoder L (i, streams c ! i) st = (r, st1) \<Longrightarrow> \<not> r < 0 \<Longrightarrow>
        P (Suc i) (set_a_index (word_of_nat i) st1)"
    and skip: "\<And>i st. i < nb_streams c \<Longrightarrow> P i st \<Longrightarrow> \<not> video_candidate (streams c ! i) st \<Longrightarrow>
        \<not> audio_candidate (streams c ! i) st \<Longrightarrow> P (Suc i) st"
    and stop: "\<And>i st r st1. i < nb_streams c \<Longrightarrow> P i st \<Longrightarrow>
        video_candidate (streams c ! i) st \<or> audio_candidate (streams c ! i) st \<Longrightarrow>
        open_decoder L (i, streams c ! i) st = (r, st1) \<Longrightarrow> r < 0 \<Longrightarrow> Q st1"
    and fin: "\<And>i st. \<not> i < nb_streams c \<Longrightarrow> P i st \<Longrightarrow> Q st"
  shows "Q (scan_streams L c index st)"
  using init
proof (induction "nb_streams c - index" arbitrary: index st)
  case 0
  then have "\<not> index < nb_streams c" by simp
  with 0 show ?case by (simp add: scan_streams_end fin)
next
  case (Suc n)
  then have lt: "index < nb_streams c" and n: "n = nb_streams c - Suc index"
    by simp_all
  obtain r st1 where od: "open_decoder L (index, streams c ! index) st = (r, st1)"
    by (cases "open_decoder L (index, streams c ! index) st")
  consider (v) "video_candidate (streams c ! index) st"
    | (a) "audio_candidate (streams c ! index) st"
    | (s) "\<not> video_candidate (streams c ! index) st" "\<not> audio_candidate (streams c ! index) st"
    by blast
  then show ?case
  proof cases
    case v
    show ?thesis
    proof (cases "r < 0")
      case True
      with v lt od have "scan_streams L c index st = st1"
        by (simp add: scan_streams_video)
      moreover have "Q st1"
        using stop [OF lt Suc.prems _ od True] v by simp
      ultimately show ?thesis by simp
    next
      case False
      with v lt od have "scan_streams L c index st =
          scan_streams L c (Suc index) (set_v_index (word_of_nat index) st1)"
        by (simp add: scan_streams_video)
      moreover have "Q (scan_streams L c (Suc index) (set_v_index (word_of_nat index) st1))"
        using Suc.hyps(1) [OF n video [OF lt Suc.prems v od False]] .
      ultimately show ?thesis by simp
    qed
  next
    case a
    show ?thesis
    proof (cases "r < 0")
      case True
      with a lt od have "scan_streams L c index st = st1"
        by (simp add: scan_streams_audio)
      moreover have "Q st1"
        using stop [OF lt Suc.prems _ od True] a by simp
      ultimately show ?thesis by simp
    next
      case False
      with a lt od have "scan_streams L c index st =
          scan_streams L c (Suc index) (set_a_index (word_of_nat index) st1)"
        by (simp add: scan_streams_audio)
      moreover have "Q (scan_streams L c (Suc index) (set_a_index (word_of_nat index) st1))"
        using Suc.hyps(1) [OF n audio [OF lt Suc.prems a od False]] .
      ultimately show ?thesis by simp
    qed
  next
    case s
    with lt have "scan_streams L c index st = scan_streams L c (Suc index) st"
      by (simp add: scan_streams_skip)
    moreover have "Q (scan_streams L c (Suc index) st)"
      using Suc.hyps(1) [OF n skip [OF lt Suc.prems s]] .
    ultimately show ?thesis by simp
  qed
qed

lemma scan_streams_frame:
  "fmt_ctx (inputFile (scan_streams L c index st)) = fmt_ctx (inputFile st) \<and>
   out (scan_streams L c index st) = out st \<and>
   (\<exists>es. calls (scan_streams L c index st) = calls st @ es \<and> (\<forall>e \<in> set es. is_open_attempt e))"
proof (rule scan_streams_rule [where P = "\<lambda>i s. fmt_ctx (inputFile s) = fmt_ctx (inputFile st) \<and>
   out s = out st \<and> (\<exists>es. calls s = calls st @ es \<and> (\<forall>e \<in> set es. is_open_attempt e))"], goal_cases)
  case 1
  show ?case by simp
next
  case (2 i s r s1)
  from open_decoder_state [OF 2(4)] 2(2) show ?case
    by (auto simp: is_open_attempt_def)
next
  case (3 i s r s1)
  from open_decoder_state [OF 3(4)] 3(2) show ?case
    by (auto simp: is_open_attempt_def)
next
  case (4 i s)
  then show ?case by simp
next
  case (5 i s r s1)
  from open_decoder_state [OF 5(4)] 5(2) show ?case
    by (auto simp: is_open_attempt_def)
next
  case (6 i s)
  then show ?case by simp
qed

subsection \<open>Releasing\<close>

lemma close_codecs_end:
  "\<not> index < nb_streams c \<Longrightarrow> close_codecs c index st = st"
  by (subst close_codecs.simps) simp

lemma close_codecs_step:
  "index < nb_streams c \<Longrightarrow>
   close_codecs c index st =
     close_codecs c (Suc index)
       (if word_of_nat index = v_index (inputFile st) \<or> word_of_nat index = a_index (inputFile st)
        then invoke (Avcodec_close index) st else st)"
  by (subst close_codecs.simps) simp

lemma close_codecs_state:
  "inputFile (close_codecs c index st) = inputFile st \<and>
   out (close_codecs c index st) = out st \<and>
   calls (close_codecs c index st) =
     calls st @ map Avcodec_close (closed_positions (inputFile st) index (nb_streams c))"
proof (induction "nb_streams c - index" arbitrary: index st)
  case 0
  then show ?case
    by (simp add: close_codecs_end closed_positions_def)
next
  case (Suc n)
  then have lt: "index < nb_streams c" and n: "n = nb_streams c - Suc index"
    by simp_all
  have upt: "[index..<nb_streams c] = index # [Suc index..<nb_streams c]"
    using lt by (simp add: upt_conv_Cons)
  show ?case
    using Suc.hyps(1) [OF n] lt
    by (simp add: close_codecs_step closed_positions_def upt)
qed

lemma release_null:
  "fmt_ctx (inputFile st) = None \<Longrightarrow> release st = invoke Release st"
  by (simp add: release_def Let_def)

lemma release_open:
  assumes "fmt_ctx (inputFile st) = Some c"
  shows "calls (release st) =
     calls st @ [Release] @ map Avcodec_close (closed_positions (inputFile st) 0 (nb_streams c)) @
     [Avformat_close_input]"
  using assms by (simp add: release_def Let_def close_codecs_state)

lemma release_state:
  "out (release st) = out st"
  "v_index (inputFile (release st)) = v_index (inputFile st)"
  "a_index (inputFile (release st)) = a_index (inputFile st)"
  "fmt_ctx (inputFile (release st)) = None"
  by (simp_all add: release_def Let_def close_codecs_state split: option.splits)

lemma release_count:
  "count_list (calls (release st)) Release = Suc (count_list (calls st) Release)"
  "count_list (calls (release st)) Av_read_frame = count_list (calls st) Av_read_frame"
  "count_decodes (calls (release st)) = count_decodes (calls st)"
proof -
  have a: "count_list (map Avcodec_close ps) Release = 0"
    "count_list (map Avcodec_close ps) Av_read_frame = 0"
    "filter is_decode (map Avcodec_close ps) = []" for ps
    by (induction ps) (simp_all add: is_decode_def)
  show "count_list (calls (release st)) Release = Suc (count_list (calls st) Release)"
    "count_list (calls (release st)) Av_read_frame = count_list (calls st) Av_read_frame"
    "count_decodes (calls (release st)) = count_decodes (calls st)"
    by (simp_all add: release_def Let_def close_codecs_state a count_decodes_def is_decode_def
        split: option.splits)
qed

subsection \<open>One pass of the decode loop\<close>

lemma loop_body_eof:
  "read_ret (av_read_frame L k) = AVERROR_EOF \<Longrightarrow>
   loop_body L k st = Break (printf End_of_frame (invoke Av_read_frame st))"
  by (simp add: loop_body_def Let_def)

lemma loop_body_discard:
  "read_ret (av_read_frame L k) \<noteq> AVERROR_EOF \<Longrightarrow> \<not> routed (inputFile st) (av_read_frame L k) \<Longrightarrow>
   loop_body L k st = Continue (invoke Av_free_packet (invoke Av_read_frame st))"
  by (simp add: loop_body_def Let_def routed_def)

lemma loop_body_decode:
  assumes "read_ret (av_read_frame L k) \<noteq> AVERROR_EOF"
    and "routed (inputFile st) (av_read_frame L k)"
    and "fmt_ctx (inputFile st) = Some c"
    and "in_range c (av_read_frame L k)"
  shows "\<exists>st'. loop_body L k st = Continue st' \<and> inputFile st' = inputFile st \<and>
     calls st' = calls st @ decode_calls c (av_read_frame L k) \<and>
     out st' = out st @ report_lines c (av_read_frame L k)"
  using assms
  by (auto simp add: loop_body_def Let_def routed_def in_range_def decode_packet_def report_def
      decode_calls_def decode_event_def report_lines_def)

lemma loop_body_null:
  assumes "read_ret (av_read_frame L k) \<noteq> AVERROR_EOF"
    and "routed (inputFile st) (av_read_frame L k)"
    and "fmt_ctx (inputFile st) = None"
  shows "loop_body L k st = Crash Null_dereference"
  using assms by (auto simp add: loop_body_def Let_def routed_def)

lemma loop_body_out_of_bounds:
  assumes "read_ret (av_read_frame L k) \<noteq> AVERROR_EOF"
    and "routed (inputFile st) (av_read_frame L k)"
    and "fmt_ctx (inputFile st) = Some c"
    and "\<not> in_range c (av_read_frame L k)"
  shows "loop_body L k st = Crash Out_of_bounds"
  using assms by (auto simp add: loop_body_def Let_def routed_def in_range_def)

text \<open>The three ways a pass can go on to the next read or leave the loop.\<close>

lemma loop_body_Break:
  assumes "loop_body L k st = Break st'"
  shows "read_ret (av_read_frame L k) = AVERROR_EOF"
    and "st' = printf End_of_frame (invoke Av_read_frame st)"
proof -
  show eof: "read_ret (av_read_frame L k) = AVERROR_EOF"
  proof (rule ccontr)
    assume ne: "read_ret (av_read_frame L k) \<noteq> AVERROR_EOF"
    show False
    proof (cases "routed (inputFile st) (av_read_frame L k)")
      case False
      with ne assms show False by (simp add: loop_body_discard)
    next
      case True
      show False
      proof (cases "fmt_ctx (inputFile st)")
        case None
        with ne True assms show False by (simp add: loop_body_null)
      next
        case (Some c)
        show False
        proof (cases "in_range c (av_read_frame L k)")
          case True
          with loop_body_decode [OF ne \<open>routed (inputFile st) (av_read_frame L k)\<close> Some] assms
          show False by auto
        next
          case False
          with ne True Some assms show False by (simp add: loop_body_out_of_bounds)
        qed
      qed
    qed
  qed
  with assms show "st' = printf End_of_frame (invoke Av_read_frame st)"
    by (simp add: loop_body_eof)
qed

lemma loop_body_Continue:
  assumes "loop_body L k st = Continue st'"
  obtains (discard) "read_ret (av_read_frame L k) \<noteq> AVERROR_EOF"
      "\<not> routed (inputFile st) (av_read_frame L k)"
      "st' = invoke Av_free_packet (invoke Av_read_frame st)"
  | (decode) c where "read_ret (av_read_frame L k) \<noteq> AVERROR_EOF"
      "routed (inputFile st) (av_read_frame L k)"
      "fmt_ctx (inputFile st) = Some c" "in_range c (av_read_frame L k)"
      "inputFile st' = inputFile st"
      "calls st' = calls st @ decode_calls c (av_read_frame L k)"
      "out st' = out st @ report_lines c (av_read_frame L k)"
proof -
  have ne: "read_ret (av_read_frame L k) \<noteq> AVERROR_EOF"
    using assms by (auto simp: loop_body_eof)
  show thesis
  proof (cases "routed (inputFile st) (av_read_frame L k)")
    case False
    with ne assms discard show thesis by (simp add: loop_body_discard)
  next
    case True
    show thesis
    proof (cases "fmt_ctx (inputFile st)")
      case None
      with ne True assms show thesis by (simp add: loop_body_null)
    next
      case (Some c)
      show thesis
      proof (cases "in_range c (av_read_frame L k)")
        case False
        with ne True Some assms show thesis by (simp add: loop_body_out_of_bounds)
      next
        case ir: True
        from loop_body_decode [OF ne True Some ir] assms
        show thesis using decode [OF ne True Some ir] by auto
      qed
    qed
  qed
qed

lemma loop_body_inputFile:
  assumes "loop_body L k st = Continue st' \<or> loop_body L k st = Break st'"
  shows "inputFile st' = inputFile st"
  using assms
proof
  assume "loop_body L k st = Continue st'"
  then show ?thesis by (cases rule: loop_body_Continue) simp_all
next
  assume "loop_body L k st = Break st'"
  from loop_body_Break(2) [OF this] show ?thesis by simp
qed

subsection \<open>The decode loop\<close>

lemma decode_loop_Continue:
  "loop_body L k st = Continue st1 \<Longrightarrow> decode_loop L k st = decode_loop L (Suc k) st1"
  by (subst decode_loop.simps) simp

lemma decode_loop_Break:
  "loop_body L k st = Break st1 \<Longrightarrow> decode_loop L k st = Some (Inr st1)"
  by (subst decode_loop.simps) simp

lemma decode_loop_Crash:
  "loop_body L k st = Crash f \<Longrightarrow> decode_loop L k st = Some (Inl f)"
  by (subst decode_loop.simps) simp

text \<open>An invariant of the passes holds when the loop is left.\<close>

lemma decode_loop_rule:
  assumes run: "decode_loop L k st = Some (Inr st')"
    and init: "I k st"
    and step: "\<And>k st st1. I k st \<Longrightarrow> loop_body L k st = Continue st1 \<Longrightarrow> I (Suc k) st1"
  shows "\<exists>n st1. k \<le> n \<and> I n st1 \<and> loop_body L n st1 = Break st'"
proof -
  define P where "P = (\<lambda>(L' :: Library) k st (r :: fault + Run). L' = L \<longrightarrow> I k st \<longrightarrow>
    (\<forall>st'. r = Inr st' \<longrightarrow> (\<exists>n st1. k \<le> n \<and> I n st1 \<and> loop_body L n st1 = Break st')))"
  have "P L k st (Inr st')"
  proof (rule decode_loop.raw_induct [where P = P, OF _ run], goal_cases)
    case (1 dl L' k st r)
    show ?case
      unfolding P_def
    proof (intro impI allI)
      fix st'
      assume L: "L' = L" and I: "I k st" and r: "r = Inr st'"
      show "\<exists>n st1. k \<le> n \<and> I n st1 \<and> loop_body L n st1 = Break st'"
      proof (cases "loop_body L k st")
        case (Continue st1)
        with 1(2) L have dl: "dl L (Suc k) st1 = Some r" by simp
        have "\<exists>n st2. Suc k \<le> n \<and> I n st2 \<and> loop_body L n st2 = Break st'"
          using 1(1) [OF dl, unfolded P_def, rule_format, OF refl step [OF I Continue] r] .
        then obtain n st2 where n: "Suc k \<le> n" "I n st2" "loop_body L n st2 = Break st'"
          by (elim exE conjE)
        from n(1) have "k \<le> n" by simp
        with n(2,3) show ?thesis
          by (intro exI [of _ n] exI [of _ st2]) simp
      next
        case (Break st1)
        with 1(2) L r have "st1 = st'" by simp
        with Break I show ?thesis
          by (intro exI [of _ k] exI [of _ st]) simp
      next
        case (Crash f)
        with 1(2) L r show ?thesis by simp
      qed
    qed
  qed
  from this [unfolded P_def, rule_format, OF refl init refl] show ?thesis .
qed

text \<open>The loop is left once a read answers the end of the stream, unless it crashed before.\<close>

lemma decode_loop_terminates:
  assumes "read_ret (av_read_frame L n) = AVERROR_EOF" and "k \<le> n"
  shows "decode_loop L k st \<noteq> None"
  using assms(2)
proof (induction "n - k" arbitrary: k st)
  case 0
  then have "k = n" by simp
  with assms(1) have "loop_body L k st = Break (printf End_of_frame (invoke Av_read_frame st))"
    by (simp add: loop_body_eof)
  from decode_loop_Break [OF this] show ?case by simp
next
  case (Suc m)
  then have m: "m = n - Suc k" and le: "Suc k \<le> n" by simp_all
  show ?case
  proof (cases "loop_body L k st")
    case (Continue st1)
    from decode_loop_Continue [OF this] Suc.hyps(1) [OF m le] show ?thesis
      by simp
  next
    case (Break st1)
    from decode_loop_Break [OF this] show ?thesis by simp
  next
    case (Crash f)
    from decode_loop_Crash [OF this] show ?thesis by simp
  qed
qed

subsection \<open>The scan stops at a decoder that does not open\<close>

text \<open>
  C4. When the scan comes to a stream that is a candidate (a video stream while no video index
  is set, or an audio stream while no audio index is set) and the decoder of that stream does
  not open, the scan stops there: its result is the state the failed attempt left, with both
  indices as they were and no call after the attempt, and it is the same whatever streams
  follow in the container.
\<close>

theorem scan_stops_at_failed_decoder:
  assumes "index < nb_streams c"
    and "video_candidate (streams c ! index) st \<or> audio_candidate (streams c ! index) st"
    and "\<not> decoder_opens L (streams c ! index)"
  shows "scan_streams L c index st = snd (open_decoder L (index, streams c ! index) st) \<and>
    inputFile (scan_streams L c index st) = inputFile st \<and>
    calls (scan_streams L c index st) =
      calls st @ (if avcodec_find_decoder L (codec_id (streams c ! index))
                  then [Avcodec_find_decoder (codec_id (streams c ! index)), Avcodec_open2 index]
                  else [Avcodec_find_decoder (codec_id (streams c ! index))]) \<and>
    (\<forall>later. scan_streams L (c\<lparr>streams := take (Suc index) (streams c) @ later\<rparr>) index st =
              scan_streams L c index st)"
proof -
  obtain r st1 where od: "open_decoder L (index, streams c ! index) st = (r, st1)"
    by (cases "open_decoder L (index, streams c ! index) st")
  have r: "r < 0"
    using open_decoder_fails_iff [of L index "streams c ! index" st] od assms(3) by simp
  have stop: "scan_streams L c' index st = st1"
    if "index < nb_streams c'" and "streams c' ! index = streams c ! index" for c'
    using assms(2)
  proof
    assume "video_candidate (streams c ! index) st"
    with that od r show ?thesis by (simp add: scan_streams_video)
  next
    assume "audio_candidate (streams c ! index) st"
    with that od r show ?thesis by (simp add: scan_streams_audio)
  qed
  have here: "scan_streams L c index st = st1"
    using stop [of c] assms(1) by simp
  have later: "scan_streams L (c\<lparr>streams := take (Suc index) (streams c) @ later\<rparr>) index st = st1"
    for later
    using assms(1) by (intro stop) (simp_all add: nb_streams_def nth_append)
  from here later open_decoder_state [OF od] od show ?thesis
    by simp
qed

theorem scan_stops_at_failed_decoder_witness:
  "0 < nb_streams (container broken_then_good) \<and>
   video_candidate (streams (container broken_then_good) ! 0) (probed broken_then_good ''in.mp4'') \<and>
   \<not> decoder_opens broken_then_good (streams (container broken_then_good) ! 0) \<and>
   v_index (inputFile (scan_streams broken_then_good (container broken_then_good) 0
      (probed broken_then_good ''in.mp4''))) = - 1 \<and>
   calls (scan_streams broken_then_good (container broken_then_good) 0
      (probed broken_then_good ''in.mp4'')) =
     [Av_register_all, Av_log_set_level, Avformat_open_input ''in.mp4'', Avformat_find_stream_info,
      Avcodec_find_decoder 28, Avcodec_open2 0]"
proof -
  have a: "0 < nb_streams (container broken_then_good)"
    by (simp add: example_defs nb_streams_def)
  have b: "video_candidate (streams (container broken_then_good) ! 0) (probed broken_then_good ''in.mp4'')"
    by (simp add: example_defs video_candidate_def)
  have c: "\<not> decoder_opens broken_then_good (streams (container broken_then_good) ! 0)"
    by (simp add: example_defs decoder_opens_def)
  note stops = scan_stops_at_failed_decoder [OF a disjI1 [OF b] c]
  have v: "v_index (inputFile (scan_streams broken_then_good (container broken_then_good) 0
      (probed broken_then_good ''in.mp4''))) = v_index (inputFile (probed broken_then_good ''in.mp4''))"
    using stops [THEN conjunct2, THEN conjunct1] by simp
  have e: "calls (scan_streams broken_then_good (container broken_then_good) 0
      (probed broken_then_good ''in.mp4'')) =
      calls (probed broken_then_good ''in.mp4'') @ [Avcodec_find_decoder 28, Avcodec_open2 0]"
    using stops [THEN conjunct2, THEN conjunct2, THEN conjunct1]
    by (simp add: broken_then_good_def library_def broken_video_ctx_def)
  have "v_index (inputFile (probed broken_then_good ''in.mp4'')) = - 1"
    and "calls (probed broken_then_good ''in.mp4'') =
      [Av_register_all, Av_log_set_level, Avformat_open_input ''in.mp4'', Avformat_find_stream_info]"
    by (simp_all add: probed_def)
  with v e a b c show ?thesis
    by simp
qed

subsection \<open>A decode call that fails\<close>

text \<open>
  C6. A pass of the decode loop whose packet is fed to a decoder (the read was not the end of the
  stream, the packet is routed, and its stream exists) always goes on to the next read: it makes
  one decode call, frees the packet as its last call, and prints a report block only when the
  decode call returned no error and gave a frame. When the decode call returns an error nothing
  is printed. The indices are left as they were.
\<close>

theorem decode_error_is_skipped:
  assumes "read_ret (av_read_frame L k) \<noteq> AVERROR_EOF"
    and "routed (inputFile st) (av_read_frame L k)"
    and "fmt_ctx (inputFile st) = Some c"
    and "in_range c (av_read_frame L k)"
  shows "\<exists>st'. loop_body L k st = Continue st' \<and>
     decode_loop L k st = decode_loop L (Suc k) st' \<and>
     inputFile st' = inputFile st \<and>
     calls st' = calls st @ decode_calls c (av_read_frame L k) \<and>
     count_decodes (decode_calls c (av_read_frame L k)) = 1 \<and>
     count_list (decode_calls c (av_read_frame L k)) Av_free_packet = 1 \<and>
     last (calls st') = Av_free_packet \<and>
     out st' = out st @ report_lines c (av_read_frame L k) \<and>
     (decoded_size (av_read_frame L k) < 0 \<longrightarrow> out st' = out st) \<and>
     (got_frame (av_read_frame L k) = 0 \<longrightarrow> out st' = out st)"
proof -
  from loop_body_decode [OF assms] obtain st' where st':
    "loop_body L k st = Continue st'" "inputFile st' = inputFile st"
    "calls st' = calls st @ decode_calls c (av_read_frame L k)"
    "out st' = out st @ report_lines c (av_read_frame L k)"
    by blast
  have one: "count_decodes (decode_calls c (av_read_frame L k)) = 1"
    by (simp add: count_decodes_def decode_calls_def decode_event_def is_decode_def)
  have free: "count_list (decode_calls c (av_read_frame L k)) Av_free_packet = 1"
    by (simp add: decode_calls_def decode_event_def)
  have last: "last (calls st') = Av_free_packet"
    by (simp add: st'(3) decode_calls_def)
  have quiet: "decoded_size (av_read_frame L k) < 0 \<or> got_frame (av_read_frame L k) = 0 \<Longrightarrow>
      out st' = out st"
    by (auto simp: st'(4) report_lines_def)
  from st' one free last quiet decode_loop_Continue [OF st'(1)] show ?thesis
    by (intro exI [of _ st']) simp
qed

subsection \<open>Opening the input\<close>

lemma open_input_cases:
  obtains (open_failed) "avformat_open_input L filename < 0"
      "open_input L filename st =
         (- 1, printf (Could_not_open filename) (invoke (Avformat_open_input filename)
            (set_a_index (- 1) (set_v_index (- 1) (set_fmt_ctx None st)))))"
  | (probe_failed) "\<not> avformat_open_input L filename < 0" "avformat_find_stream_info L < 0"
      "open_input L filename st =
         (- 2, printf Failed_stream_info (invoke Avformat_find_stream_info
            (set_fmt_ctx (Some (container L)) (invoke (Avformat_open_input filename)
              (set_a_index (- 1) (set_v_index (- 1) (set_fmt_ctx None st)))))))"
  | (scanned) st4 where "\<not> avformat_open_input L filename < 0" "\<not> avformat_find_stream_info L < 0"
      "st4 = scan_streams L (container L) 0 (invoke Avformat_find_stream_info
            (set_fmt_ctx (Some (container L)) (invoke (Avformat_open_input filename)
              (set_a_index (- 1) (set_v_index (- 1) (set_fmt_ctx None st))))))"
      "open_input L filename st =
         (if sint (a_index (inputFile st4)) < 0 then (- 3, printf Failed_stream_info st4) else (0, st4))"
  by (cases "avformat_open_input L filename < 0"; cases "avformat_find_stream_info L < 0")
     (simp_all add: open_input_def Let_def)

lemma open_input_calls:
  assumes "open_input L filename st = (r, st1)"
  shows "\<exists>es. calls st1 = calls st @ es \<and> (\<forall>e \<in> set es. is_setup_call e)"
proof (cases L filename st rule: open_input_cases)
  case open_failed
  with assms show ?thesis by (auto simp: is_setup_call_def)
next
  case probe_failed
  with assms show ?thesis by (auto simp: is_setup_call_def)
next
  case (scanned st4)
  define st3 where "st3 = invoke Avformat_find_stream_info
            (set_fmt_ctx (Some (container L)) (invoke (Avformat_open_input filename)
              (set_a_index (- 1) (set_v_index (- 1) (set_fmt_ctx None st)))))"
  have st4: "st4 = scan_streams L (container L) 0 st3"
    using scanned(3) by (simp add: st3_def)
  have st3: "calls st3 = calls st @ [Avformat_open_input filename, Avformat_find_stream_info]"
    by (simp add: st3_def)
  from scan_streams_frame [of L "container L" 0 st3]
  obtain es where "calls st4 = calls st3 @ es" and open_attempts: "\<forall>e \<in> set es. is_open_attempt e"
    unfolding st4 by blast
  with st3 have es: "calls st4 = (calls st @ [Avformat_open_input filename, Avformat_find_stream_info]) @ es"
    by simp
  have "is_setup_call e" if "is_open_attempt e" for e
    using that by (cases e) (simp_all add: is_open_attempt_def is_setup_call_def)
  with open_attempts
  have "\<forall>e \<in> set ([Avformat_open_input filename, Avformat_find_stream_info] @ es). is_setup_call e"
    by (auto simp: is_setup_call_def)
  moreover have "calls st1 = calls st @ ([Avformat_open_input filename, Avformat_find_stream_info] @ es)"
    using scanned(4) assms es by (auto split: if_splits)
  ultimately show ?thesis by blast
qed

lemma setup_calls_counts:
  assumes "\<forall>e \<in> set es. is_setup_call e"
  shows "count_list es Release = 0" and "count_list es Av_read_frame = 0"
    and "count_decodes es = 0"
proof -
  have "Release \<notin> set es" "Av_read_frame \<notin> set es"
    using assms by (auto simp: is_setup_call_def)
  then show "count_list es Release = 0" and "count_list es Av_read_frame = 0"
    by simp_all
  have "\<not> is_decode e" if "e \<in> set es" for e
    using assms that by (cases e) (auto simp: is_setup_call_def is_decode_def)
  then show "count_decodes es = 0"
    by (simp add: count_decodes_def)
qed

lemma open_input_out:
  assumes "open_input L filename st = (r, st1)"
  shows "out st1 = out st @ (if r < 0 then [if avformat_open_input L filename < 0
                                            then Could_not_open filename else Failed_stream_info]
                             else [])"
proof (cases L filename st rule: open_input_cases)
  case open_failed
  with assms show ?thesis by auto
next
  case probe_failed
  with assms show ?thesis by auto
next
  case (scanned st4)
  from scan_streams_frame [of L "container L" 0] scanned(3) have "out st4 = out st"
    by simp
  with scanned assms show ?thesis by (auto split: if_splits)
qed

lemma open_input_fmt_ctx:
  assumes "open_input L filename st = (r, st1)"
  shows "fmt_ctx (inputFile st1) = (if avformat_open_input L filename < 0 then None else Some (container L))"
proof (cases L filename st rule: open_input_cases)
  case open_failed
  with assms show ?thesis by auto
next
  case probe_failed
  with assms show ?thesis by auto
next
  case (scanned st4)
  from scan_streams_frame [of L "container L" 0] scanned(3)
  have "fmt_ctx (inputFile st4) = Some (container L)"
    by simp
  with scanned assms show ?thesis by (auto split: if_splits)
qed

subsection \<open>The program\<close>

lemma main_cases:
  assumes "main L argv = Some (Inr (rc, r))"
  obtains (usage) a where "argv = [a]" "rc = 0" "r = printf (Usage a) started"
  | (open_failed) ret st1 where "2 \<le> length argv" "rc = 0"
      "open_input L (argv ! 1) started = (ret, st1)" "ret < 0" "r = release st1"
  | (no_frame) ret st1 where "2 \<le> length argv" "rc = 0"
      "open_input L (argv ! 1) started = (ret, st1)" "\<not> ret < 0" "\<not> av_frame_alloc L"
      "r = release (decoding L (argv ! 1))"
  | (decoded) ret st1 st3 where "2 \<le> length argv" "rc = 0"
      "open_input L (argv ! 1) started = (ret, st1)" "\<not> ret < 0" "av_frame_alloc L"
      "decode_loop L 0 (decoding L (argv ! 1)) = Some (Inr st3)"
      "r = release (invoke Av_frame_free st3)"
proof (cases "length argv < 2")
  case True
  with assms usage show thesis
    by (cases argv) (auto simp: main_def Let_def)
next
  case False
  obtain ret st1 where oi: "open_input L (argv ! 1) started = (ret, st1)"
    by (cases "open_input L (argv ! 1) started")
  then have d: "decoding L (argv ! 1) = invoke Av_frame_alloc st1"
    by (simp add: decoding_def)
  from False have len: "2 \<le> length argv" by simp
  show thesis
  proof (cases "ret < 0")
    case True
    with assms False oi open_failed [OF len _ oi] show thesis
      by (simp add: main_def Let_def)
  next
    case nonneg: False
    show thesis
    proof (cases "av_frame_alloc L")
      case False
      with assms \<open>\<not> length argv < 2\<close> oi nonneg d no_frame [OF len _ oi] show thesis
        by (simp add: main_def Let_def)
    next
      case True
      with assms \<open>\<not> length argv < 2\<close> oi nonneg d decoded [OF len _ oi nonneg True] show thesis
        by (auto simp add: main_def Let_def split: option.splits sum.splits)
    qed
  qed
qed

subsection \<open>Concrete runs\<close>

lemma decoding_audio_only:
  "decoding audio_only ''in.mp4'' =
     \<lparr>inputFile = \<lparr>fmt_ctx = Some \<lparr>streams = [audio_ctx]\<rparr>, v_index = - 1, a_index = 0\<rparr>,
      out = [],
      calls = [Av_register_all, Av_log_set_level, Avformat_open_input ''in.mp4'',
               Avformat_find_stream_info, Avcodec_find_decoder 86018, Avcodec_open2 0,
               Av_frame_alloc]\<rparr>"
  by (simp add: decoding_def program_defs example_defs)

lemma main_with_subtitles:
  "main with_subtitles [''sample04'', ''in.mkv''] =
     Some (Inr (0,
      \<lparr>inputFile = \<lparr>fmt_ctx = None, v_index = 1, a_index = 0\<rparr>,
       out = [Separator, Audio_samples 1024, Audio_channels 2,
              Separator, Video_size 640 480, Video_sar 1 1,
              Separator, Audio_samples 1024, Audio_channels 2, End_of_frame],
       calls = [Av_register_all, Av_log_set_level, Avformat_open_input ''in.mkv'',
                Avformat_find_stream_info, Avcodec_find_decoder 86018, Avcodec_open2 0,
                Avcodec_find_decoder 28, Avcodec_open2 1, Av_frame_alloc,
                Av_read_frame, Av_packet_rescale_ts 0, Avcodec_decode_audio4 0,
                Av_frame_get_best_effort_timestamp, Av_frame_unref, Av_free_packet,
                Av_read_frame, Av_packet_rescale_ts 1, Avcodec_decode_video2 1,
                Av_frame_get_best_effort_timestamp, Av_frame_unref, Av_free_packet,
                Av_read_frame, Av_free_packet,
                Av_read_frame, Av_packet_rescale_ts 0, Avcodec_decode_audio4 0,
                Av_frame_get_best_effort_timestamp, Av_frame_unref, Av_free_packet,
                Av_read_frame, Av_frame_free, Release, Avcodec_close 0, Avcodec_close 1,
                Avformat_close_input]\<rparr>))"
  by (simp add: program_defs example_defs decode_loop.simps)

lemma main_no_frame:
  "main no_frame [''sample04'', ''in.mp4''] =
     Some (Inr (0,
      \<lparr>inputFile = \<lparr>fmt_ctx = None, v_index = - 1, a_index = 0\<rparr>,
       out = [],
       calls = [Av_register_all, Av_log_set_level, Avformat_open_input ''in.mp4'',
                Avformat_find_stream_info, Avcodec_find_decoder 86018, Avcodec_open2 0,
                Av_frame_alloc, Release, Avcodec_close 0, Avformat_close_input]\<rparr>))"
  by (simp add: program_defs example_defs)

lemma main_not_a_media_file:
  "main not_a_media_file [''sample04'', ''notes.txt''] =
     Some (Inr (0,
      \<lparr>inputFile = \<lparr>fmt_ctx = None, v_index = - 1, a_index = - 1\<rparr>,
       out = [Could_not_open ''notes.txt''],
       calls = [Av_register_all, Av_log_set_level, Avformat_open_input ''notes.txt'', Release]\<rparr>))"
  by (simp add: program_defs example_defs)

lemma main_audio_only:
  "main audio_only [''sample04'', ''in.mp4''] =
     Some (Inr (0,
      \<lparr>inputFile = \<lparr>fmt_ctx = None, v_index = - 1, a_index = 0\<rparr>,
       out = [Separator, Audio_samples 1024, Audio_channels 2, End_of_frame],
       calls = [Av_register_all, Av_log_set_level, Avformat_open_input ''in.mp4'',
                Avformat_find_stream_info, Avcodec_find_decoder 86018, Avcodec_open2 0,
                Av_frame_alloc,
                Av_read_frame, Av_packet_rescale_ts 0, Avcodec_decode_audio4 0,
                Av_frame_get_best_effort_timestamp, Av_frame_unref, Av_free_packet,
                Av_read_frame, Av_packet_rescale_ts 0, Avcodec_decode_audio4 0, Av_free_packet,
                Av_read_frame, Av_frame_free, Release, Avcodec_close 0,
                Avformat_close_input]\<rparr>))"
  by (simp add: program_defs example_defs decode_loop.simps)

theorem decode_error_is_skipped_witness:
  "read_ret (av_read_frame audio_only 1) \<noteq> AVERROR_EOF \<and>
   routed (inputFile (decoding audio_only ''in.mp4'')) (av_read_frame audio_only 1) \<and>
   fmt_ctx (inputFile (decoding audio_only ''in.mp4'')) = Some (container audio_only) \<and>
   in_range (container audio_only) (av_read_frame audio_only 1) \<and>
   decoded_size (av_read_frame audio_only 1) < 0 \<and>
   (\<exists>st'. loop_body audio_only 1 (decoding audio_only ''in.mp4'') = Continue st' \<and>
      last (calls st') = Av_free_packet \<and> out st' = out (decoding audio_only ''in.mp4''))"
proof -
  have a: "read_ret (av_read_frame audio_only 1) \<noteq> AVERROR_EOF"
    by (simp add: example_defs AVERROR_EOF_def)
  have b: "routed (inputFile (decoding audio_only ''in.mp4'')) (av_read_frame audio_only 1)"
    by (simp add: decoding_audio_only routed_def) (simp add: example_defs)
  have c: "fmt_ctx (inputFile (decoding audio_only ''in.mp4'')) = Some (container audio_only)"
    by (simp add: decoding_audio_only) (simp add: example_defs)
  have d: "in_range (container audio_only) (av_read_frame audio_only 1)"
    by (simp add: example_defs in_range_def nb_streams_def)
  have e: "decoded_size (av_read_frame audio_only 1) < 0"
    by (simp add: example_defs)
  from decode_error_is_skipped [OF a b c d] e show ?thesis
    using a b c d by blast
qed

subsection \<open>The loop ends at the end of the stream only\<close>

text \<open>
  C9. A pass of the decode loop leaves the loop exactly when the read returned the end-of-stream
  code. Any other return value of the read is not looked at: the pass does what it does for a
  read that returned 0 and left the same packet, so the packet of a failed read is routed,
  rescaled and decoded like any other. A run of the loop that ends normally ends at the first
  read that returns the end-of-stream code, and a loop with such a read ahead does end (there, or
  before it on a stream index outside the array).
\<close>

theorem loop_ends_only_at_eof:
  "((\<exists>st'. loop_body L k st = Break st') \<longleftrightarrow> read_ret (av_read_frame L k) = AVERROR_EOF) \<and>
   (read_ret (av_read_frame L k) \<noteq> AVERROR_EOF \<longrightarrow>
      loop_body L k st = loop_body (with_read L k ((av_read_frame L k)\<lparr>read_ret := 0\<rparr>)) k st) \<and>
   (\<forall>st'. decode_loop L k st = Some (Inr st') \<longrightarrow>
      (\<exists>n. k \<le> n \<and> read_ret (av_read_frame L n) = AVERROR_EOF \<and>
           (\<forall>j \<in> set [k..<n]. read_ret (av_read_frame L j) \<noteq> AVERROR_EOF))) \<and>
   (\<forall>n. k \<le> n \<and> read_ret (av_read_frame L n) = AVERROR_EOF \<longrightarrow> decode_loop L k st \<noteq> None)"
proof (intro conjI impI allI)
  fix n
  assume "k \<le> n \<and> read_ret (av_read_frame L n) = AVERROR_EOF"
  then show "decode_loop L k st \<noteq> None"
    using decode_loop_terminates by blast
next
  show "(\<exists>st'. loop_body L k st = Break st') \<longleftrightarrow> read_ret (av_read_frame L k) = AVERROR_EOF"
    using loop_body_Break(1) loop_body_eof by blast
next
  assume "read_ret (av_read_frame L k) \<noteq> AVERROR_EOF"
  then show "loop_body L k st = loop_body (with_read L k ((av_read_frame L k)\<lparr>read_ret := 0\<rparr>)) k st"
    by (cases "fmt_ctx (inputFile st)")
       (simp_all add: loop_body_def with_read_def decode_packet_def Let_def AVERROR_EOF_def)
next
  fix st'
  assume run: "decode_loop L k st = Some (Inr st')"
  define I where "I = (\<lambda>n (s :: Run). \<forall>j \<in> set [k..<n]. read_ret (av_read_frame L j) \<noteq> AVERROR_EOF)"
  have init: "I k st"
    by (simp add: I_def)
  have step: "I (Suc n) s1" if "I n s" and "loop_body L n s = Continue s1" for n s s1
  proof -
    from that(2) have "read_ret (av_read_frame L n) \<noteq> AVERROR_EOF"
      by (auto simp: loop_body_eof)
    with that(1) show ?thesis
      by (auto simp: I_def less_Suc_eq)
  qed
  have "\<exists>n s1. k \<le> n \<and> I n s1 \<and> loop_body L n s1 = Break st'"
    using run init
  proof (rule decode_loop_rule)
    fix n s s1
    assume "I n s" and "loop_body L n s = Continue s1"
    then show "I (Suc n) s1" by (rule step)
  qed
  then obtain n s1 where n: "k \<le> n" "I n s1" "loop_body L n s1 = Break st'"
    by blast
  from loop_body_Break(1) [OF n(3)] n(1,2)
  show "\<exists>n. k \<le> n \<and> read_ret (av_read_frame L n) = AVERROR_EOF \<and>
           (\<forall>j \<in> set [k..<n]. read_ret (av_read_frame L j) \<noteq> AVERROR_EOF)"
    unfolding I_def by blast
qed

theorem loop_ends_only_at_eof_witness:
  "read_ret (av_read_frame audio_only 0) < 0 \<and>
   read_ret (av_read_frame audio_only 0) \<noteq> AVERROR_EOF \<and>
   loop_body audio_only 0 (decoding audio_only ''in.mp4'') =
     loop_body (with_read audio_only 0 (packet 0)) 0 (decoding audio_only ''in.mp4'') \<and>
   loop_body audio_only 0 (decoding audio_only ''in.mp4'') =
     Continue
      \<lparr>inputFile = \<lparr>fmt_ctx = Some \<lparr>streams = [audio_ctx]\<rparr>, v_index = - 1, a_index = 0\<rparr>,
       out = [Separator, Audio_samples 1024, Audio_channels 2],
       calls = [Av_register_all, Av_log_set_level, Avformat_open_input ''in.mp4'',
                Avformat_find_stream_info, Avcodec_find_decoder 86018, Avcodec_open2 0,
                Av_frame_alloc, Av_read_frame, Av_packet_rescale_ts 0, Avcodec_decode_audio4 0,
                Av_frame_get_best_effort_timestamp, Av_frame_unref, Av_free_packet]\<rparr>"
proof -
  have a: "read_ret (av_read_frame audio_only 0) \<noteq> AVERROR_EOF"
    and b: "read_ret (av_read_frame audio_only 0) < 0"
    by (simp_all add: example_defs AVERROR_EOF_def)
  have c: "(av_read_frame audio_only 0)\<lparr>read_ret := 0\<rparr> = packet 0"
    by (simp add: example_defs)
  have d: "loop_body audio_only 0 (decoding audio_only ''in.mp4'') =
     Continue
      \<lparr>inputFile = \<lparr>fmt_ctx = Some \<lparr>streams = [audio_ctx]\<rparr>, v_index = - 1, a_index = 0\<rparr>,
       out = [Separator, Audio_samples 1024, Audio_channels 2],
       calls = [Av_register_all, Av_log_set_level, Avformat_open_input ''in.mp4'',
                Avformat_find_stream_info, Avcodec_find_decoder 86018, Avcodec_open2 0,
                Av_frame_alloc, Av_read_frame, Av_packet_rescale_ts 0, Avcodec_decode_audio4 0,
                Av_frame_get_best_effort_timestamp, Av_frame_unref, Av_free_packet]\<rparr>"
    by (simp add: decoding_audio_only) (simp add: program_defs example_defs)
  from loop_ends_only_at_eof [of audio_only 0 "decoding audio_only ''in.mp4''",
      THEN conjunct2, THEN conjunct1, rule_format, OF a]
  have "loop_body audio_only 0 (decoding audio_only ''in.mp4'') =
     loop_body (with_read audio_only 0 (packet 0)) 0 (decoding audio_only ''in.mp4'')"
    by (simp only: c)
  with a b d show ?thesis
    by simp
qed

subsection \<open>Counting calls\<close>

lemma count_decodes_append [simp]:
  "count_decodes (xs @ ys) = count_decodes xs + count_decodes ys"
  by (simp add: count_decodes_def)

lemma count_decodes_simps [simp]:
  "count_decodes [] = 0"
  "count_decodes (e # es) = (if is_decode e then Suc (count_decodes es) else count_decodes es)"
  by (simp_all add: count_decodes_def)

lemma decode_calls_counts:
  "count_list (decode_calls c rd) Release = 0"
  "count_list (decode_calls c rd) Av_read_frame = 1"
  "count_decodes (decode_calls c rd) = 1"
  by (simp_all add: decode_calls_def decode_event_def is_decode_def)

lemma on_selected_cong:
  "v_index f = v_index f' \<Longrightarrow> a_index f = a_index f' \<Longrightarrow> on_selected f = on_selected f'"
  by (simp add: on_selected_def fun_eq_iff)

lemma routed_in_range_selected:
  assumes "routed f rd" and "in_range c rd"
  shows "on_selected f (stream_index rd)"
  using assms by (auto simp: routed_def in_range_def on_selected_def)

lemma not_routed_not_selected:
  "\<not> routed f rd \<Longrightarrow> \<not> on_selected f (stream_index rd)"
  by (auto simp: routed_def on_selected_def)

lemma open_input_counts:
  assumes "open_input L filename started = (r, st1)"
  shows "count_list (calls st1) Release = 0" and "count_list (calls st1) Av_read_frame = 0"
    and "count_decodes (calls st1) = 0"
proof -
  from open_input_calls [OF assms] obtain es
    where es: "calls st1 = calls started @ es" "\<forall>e \<in> set es. is_setup_call e"
    by blast
  from setup_calls_counts [OF es(2)] es(1)
  show "count_list (calls st1) Release = 0" and "count_list (calls st1) Av_read_frame = 0"
    and "count_decodes (calls st1) = 0"
    by (simp_all add: is_decode_def)
qed

lemma loop_body_counts:
  assumes "loop_body L k st = Continue st'"
  shows "count_list (calls st') Release = count_list (calls st) Release"
    and "count_list (calls st') Av_read_frame = Suc (count_list (calls st) Av_read_frame)"
    and "count_decodes (calls st') = count_decodes (calls st) +
           (if on_selected (inputFile st) (stream_index (av_read_frame L k)) then 1 else 0)"
  using assms
proof (atomize (full), cases rule: loop_body_Continue)
  case discard
  then show "count_list (calls st') Release = count_list (calls st) Release \<and>
    count_list (calls st') Av_read_frame = Suc (count_list (calls st) Av_read_frame) \<and>
    count_decodes (calls st') = count_decodes (calls st) +
           (if on_selected (inputFile st) (stream_index (av_read_frame L k)) then 1 else 0)"
    by (simp add: not_routed_not_selected is_decode_def)
next
  case (decode c)
  then show "count_list (calls st') Release = count_list (calls st) Release \<and>
    count_list (calls st') Av_read_frame = Suc (count_list (calls st) Av_read_frame) \<and>
    count_decodes (calls st') = count_decodes (calls st) +
           (if on_selected (inputFile st) (stream_index (av_read_frame L k)) then 1 else 0)"
    by (simp add: routed_in_range_selected decode_calls_counts)
qed

text \<open>What a run of the loop that ends normally has added to the state.\<close>

lemma decode_loop_counts:
  assumes "decode_loop L 0 st = Some (Inr st')"
  shows "\<exists>n. inputFile st' = inputFile st \<and>
    count_list (calls st') Release = count_list (calls st) Release \<and>
    count_list (calls st') Av_read_frame = count_list (calls st) Av_read_frame + Suc n \<and>
    count_decodes (calls st') = count_decodes (calls st) +
      length (filter (\<lambda>j. on_selected (inputFile st) (stream_index (av_read_frame L j))) [0..<n])"
proof -
  define I where "I = (\<lambda>n (s :: Run). inputFile s = inputFile st \<and>
    count_list (calls s) Release = count_list (calls st) Release \<and>
    count_list (calls s) Av_read_frame = count_list (calls st) Av_read_frame + n \<and>
    count_decodes (calls s) = count_decodes (calls st) +
      length (filter (\<lambda>j. on_selected (inputFile st) (stream_index (av_read_frame L j))) [0..<n]))"
  have "\<exists>n s1. 0 \<le> n \<and> I n s1 \<and> loop_body L n s1 = Break st'"
    using assms
  proof (rule decode_loop_rule)
    show "I 0 st" by (simp add: I_def)
  next
    fix n s s1
    assume I: "I n s" and body: "loop_body L n s = Continue s1"
    from loop_body_inputFile [of L n s s1] body have "inputFile s1 = inputFile s"
      by simp
    with I loop_body_counts [OF body] show "I (Suc n) s1"
      by (simp add: I_def)
  qed
  then obtain n s1 where n: "I n s1" "loop_body L n s1 = Break st'"
    by blast
  from loop_body_Break(2) [OF n(2)] n(1) show ?thesis
    by (intro exI [of _ n]) (simp add: I_def is_decode_def)
qed

lemma decoding_counts:
  "count_list (calls (decoding L filename)) Release = 0"
  "count_list (calls (decoding L filename)) Av_read_frame = 0"
  "count_decodes (calls (decoding L filename)) = 0"
proof -
  obtain r st1 where oi: "open_input L filename started = (r, st1)"
    by (cases "open_input L filename started")
  from open_input_counts [OF oi] oi
  show "count_list (calls (decoding L filename)) Release = 0"
    "count_list (calls (decoding L filename)) Av_read_frame = 0"
    "count_decodes (calls (decoding L filename)) = 0"
    by (simp_all add: decoding_def is_decode_def)
qed

text \<open>The three counts of the final state of a run that returns.\<close>

lemma main_counts:
  assumes "main L argv = Some (Inr (rc, r))"
  shows "count_list (calls r) Release = (if 2 \<le> length argv then 1 else 0)"
    and "count_decodes (calls r) =
           packets_on_selected L (inputFile r) (count_list (calls r) Av_read_frame)"
  using assms
proof (atomize (full), cases rule: main_cases)
  case (usage a)
  then show "count_list (calls r) Release = (if 2 \<le> length argv then 1 else 0) \<and>
    count_decodes (calls r) = packets_on_selected L (inputFile r) (count_list (calls r) Av_read_frame)"
    by (simp add: packets_on_selected_def is_decode_def)
next
  case (open_failed ret st1)
  with open_input_counts [OF open_failed(3)]
  show "count_list (calls r) Release = (if 2 \<le> length argv then 1 else 0) \<and>
    count_decodes (calls r) = packets_on_selected L (inputFile r) (count_list (calls r) Av_read_frame)"
    by (simp add: release_count packets_on_selected_def)
next
  case (no_frame ret st1)
  then show "count_list (calls r) Release = (if 2 \<le> length argv then 1 else 0) \<and>
    count_decodes (calls r) = packets_on_selected L (inputFile r) (count_list (calls r) Av_read_frame)"
    by (simp add: release_count decoding_counts packets_on_selected_def)
next
  case (decoded ret st1 st3)
  from decode_loop_counts [OF decoded(6)] obtain n where n:
    "inputFile st3 = inputFile (decoding L (argv ! 1))"
    "count_list (calls st3) Release = 0"
    "count_list (calls st3) Av_read_frame = Suc n"
    "count_decodes (calls st3) =
      length (filter (\<lambda>j. on_selected (inputFile (decoding L (argv ! 1)))
        (stream_index (av_read_frame L j))) [0..<n])"
    by (auto simp: decoding_counts)
  have "on_selected (inputFile r) = on_selected (inputFile (decoding L (argv ! 1)))"
    using decoded(7) n(1) by (intro on_selected_cong) (simp_all add: release_state)
  with n decoded(1,7)
  show "count_list (calls r) Release = (if 2 \<le> length argv then 1 else 0) \<and>
    count_decodes (calls r) = packets_on_selected L (inputFile r) (count_list (calls r) Av_read_frame)"
    by (simp add: release_count packets_on_selected_def is_decode_def)
qed

subsection \<open>Packets of streams that are not selected\<close>

text \<open>
  C5. In a pass of the decode loop whose read was not the end of the stream, a packet that is not
  routed (its stream index equals neither index field) is freed at once: the pass calls the read
  and the free and nothing else. A packet with a stream index that is not negative and is not one
  of the selected indices is not routed. In a run that returns, the number of decode calls is the
  number of packets read whose stream index is one of the selected indices.
\<close>

theorem unselected_packets_are_discarded:
  "(read_ret (av_read_frame L k) \<noteq> AVERROR_EOF \<and> \<not> routed (inputFile st) (av_read_frame L k) \<longrightarrow>
      loop_body L k st = Continue (invoke Av_free_packet (invoke Av_read_frame st))) \<and>
   (0 \<le> sint (stream_index rd) \<and> \<not> on_selected f (stream_index rd) \<longrightarrow> \<not> routed f rd) \<and>
   (\<forall>rc r. main L argv = Some (Inr (rc, r)) \<longrightarrow>
      count_decodes (calls r) =
        packets_on_selected L (inputFile r) (count_list (calls r) Av_read_frame))"
proof (intro conjI impI allI)
  assume "read_ret (av_read_frame L k) \<noteq> AVERROR_EOF \<and> \<not> routed (inputFile st) (av_read_frame L k)"
  then show "loop_body L k st = Continue (invoke Av_free_packet (invoke Av_read_frame st))"
    by (simp add: loop_body_discard)
next
  assume "0 \<le> sint (stream_index rd) \<and> \<not> on_selected f (stream_index rd)"
  then show "\<not> routed f rd"
    by (auto simp: routed_def on_selected_def)
next
  fix rc r
  assume "main L argv = Some (Inr (rc, r))"
  then show "count_decodes (calls r) =
        packets_on_selected L (inputFile r) (count_list (calls r) Av_read_frame)"
    by (rule main_counts(2))
qed

theorem unselected_packets_are_discarded_witness:
  "read_ret (av_read_frame with_subtitles 2) \<noteq> AVERROR_EOF \<and>
   0 \<le> sint (stream_index (av_read_frame with_subtitles 2)) \<and>
   \<not> routed (inputFile (decoding with_subtitles ''in.mkv'')) (av_read_frame with_subtitles 2) \<and>
   loop_body with_subtitles 2 (decoding with_subtitles ''in.mkv'') =
     Continue (invoke Av_free_packet (invoke Av_read_frame (decoding with_subtitles ''in.mkv''))) \<and>
   (\<exists>r. main with_subtitles [''sample04'', ''in.mkv''] = Some (Inr (0, r)) \<and>
      count_list (calls r) Av_read_frame = 5 \<and>
      packets_on_selected with_subtitles (inputFile r) 5 = 3 \<and>
      count_decodes (calls r) = 3)"
proof -
  have a: "read_ret (av_read_frame with_subtitles 2) \<noteq> AVERROR_EOF"
    by (simp add: example_defs AVERROR_EOF_def)
  note t = unselected_packets_are_discarded [of with_subtitles 2 "decoding with_subtitles ''in.mkv''"
      "av_read_frame with_subtitles 2" "inputFile (decoding with_subtitles ''in.mkv'')"
      "[''sample04'', ''in.mkv'']"]
  have "0 \<le> sint (stream_index (av_read_frame with_subtitles 2))"
    by (simp add: example_defs)
  moreover have "\<not> on_selected (inputFile (decoding with_subtitles ''in.mkv''))
      (stream_index (av_read_frame with_subtitles 2))"
    by (simp add: decoding_def program_defs example_defs on_selected_def)
  ultimately
  have b: "\<not> routed (inputFile (decoding with_subtitles ''in.mkv'')) (av_read_frame with_subtitles 2)"
    using t [THEN conjunct2, THEN conjunct1] by simp
  from t [THEN conjunct1] a b
  have c: "loop_body with_subtitles 2 (decoding with_subtitles ''in.mkv'') =
     Continue (invoke Av_free_packet (invoke Av_read_frame (decoding with_subtitles ''in.mkv'')))"
    by simp
  let ?f = "\<lparr>fmt_ctx = None, v_index = 1, a_index = 0\<rparr>"
  have reads: "[0..<5 - 1] = [0, 1, 2, Suc 2 :: nat]"
    by (simp add: upt_rec)
  have p: "packets_on_selected with_subtitles ?f 5 = 3"
    unfolding packets_on_selected_def reads
    by (simp add: on_selected_def example_defs)
  obtain r where r: "main with_subtitles [''sample04'', ''in.mkv''] = Some (Inr (0, r))"
    and f: "inputFile r = ?f"
    and reads: "count_list (calls r) Av_read_frame = 5"
    using main_with_subtitles by simp
  from t [THEN conjunct2, THEN conjunct2, rule_format, OF r]
  have "count_decodes (calls r) = packets_on_selected with_subtitles ?f 5"
    by (simp only: reads f)
  with p have d: "count_decodes (calls r) = 3"
    by simp
  from r reads p f d
  have "\<exists>r. main with_subtitles [''sample04'', ''in.mkv''] = Some (Inr (0, r)) \<and>
      count_list (calls r) Av_read_frame = 5 \<and>
      packets_on_selected with_subtitles (inputFile r) 5 = 3 \<and>
      count_decodes (calls r) = 3"
    by (intro exI [of _ r]) simp
  with a b c \<open>0 \<le> sint (stream_index (av_read_frame with_subtitles 2))\<close> show ?thesis
    by (intro conjI)
qed

subsection \<open>Releasing once\<close>

lemma main_open_failed:
  assumes "2 \<le> length argv" and "fst (open_input L (argv ! 1) started) < 0"
  shows "main L argv = Some (Inr (0, release (snd (open_input L (argv ! 1) started))))"
proof -
  obtain r st1 where "open_input L (argv ! 1) started = (r, st1)"
    by (cases "open_input L (argv ! 1) started")
  with assms show ?thesis
    by (simp add: main_def Let_def)
qed

lemma main_no_frame_path:
  assumes "2 \<le> length argv" and "\<not> fst (open_input L (argv ! 1) started) < 0"
    and "\<not> av_frame_alloc L"
  shows "main L argv = Some (Inr (0, release (decoding L (argv ! 1))))"
proof -
  obtain r st1 where "open_input L (argv ! 1) started = (r, st1)"
    by (cases "open_input L (argv ! 1) started")
  with assms show ?thesis
    by (simp add: main_def decoding_def Let_def)
qed

lemma main_terminates:
  assumes "read_ret (av_read_frame L n) = AVERROR_EOF"
  shows "main L argv \<noteq> None"
proof -
  have loop: "decode_loop L 0 st \<noteq> None" for st
    using decode_loop_terminates [OF assms, of 0] by simp
  show ?thesis
  proof (cases "length argv < 2")
    case True
    then show ?thesis
      by (cases argv) (simp_all add: main_def)
  next
    case False
    obtain r st1 where oi: "open_input L (argv ! 1) started = (r, st1)"
      by (cases "open_input L (argv ! 1) started")
    obtain y where y: "decode_loop L 0 (invoke Av_frame_alloc st1) = Some y"
      using loop [of "invoke Av_frame_alloc st1"] by blast
    from False oi y show ?thesis
      by (cases y) (simp_all add: main_def Let_def)
  qed
qed

text \<open>
  C3, as the code has it. A run with a file argument that returns has entered \<^verbatim>\<open>release\<close>
  exactly once, and a run without one (the usage path) never: it returns before anything is
  acquired. The runs with a file argument that fail in \<^verbatim>\<open>open_input\<close> or in the frame
  allocation do return, and so does every run with an end-of-stream read ahead unless it faults.
  On a state whose container pointer is null \<^verbatim>\<open>release\<close> does nothing but be entered; that is
  the case when the file could not be opened, where the whole run is four calls.
\<close>

theorem release_once:
  "(\<forall>rc r. main L argv = Some (Inr (rc, r)) \<longrightarrow>
      count_list (calls r) Release = (if 2 \<le> length argv then 1 else 0)) \<and>
   (2 \<le> length argv \<and> (fst (open_input L (argv ! 1) started) < 0 \<or> \<not> av_frame_alloc L) \<longrightarrow>
      (\<exists>r. main L argv = Some (Inr (0, r)))) \<and>
   ((\<exists>n. read_ret (av_read_frame L n) = AVERROR_EOF) \<longrightarrow> main L argv \<noteq> None) \<and>
   (\<forall>st :: Run. fmt_ctx (inputFile st) = None \<longrightarrow> release st = invoke Release st) \<and>
   (2 \<le> length argv \<and> avformat_open_input L (argv ! 1) < 0 \<longrightarrow>
      (\<exists>r. main L argv = Some (Inr (0, r)) \<and>
        calls r = [Av_register_all, Av_log_set_level, Avformat_open_input (argv ! 1), Release]))"
proof (intro conjI impI allI)
  fix rc r
  assume "main L argv = Some (Inr (rc, r))"
  then show "count_list (calls r) Release = (if 2 \<le> length argv then 1 else 0)"
    by (rule main_counts(1))
next
  assume a: "2 \<le> length argv \<and> (fst (open_input L (argv ! 1) started) < 0 \<or> \<not> av_frame_alloc L)"
  show "\<exists>r. main L argv = Some (Inr (0, r))"
  proof (cases "fst (open_input L (argv ! 1) started) < 0")
    case True
    with a main_open_failed show ?thesis by blast
  next
    case False
    with a main_no_frame_path show ?thesis by blast
  qed
next
  assume "\<exists>n. read_ret (av_read_frame L n) = AVERROR_EOF"
  then show "main L argv \<noteq> None"
    using main_terminates by blast
next
  fix st :: Run
  assume "fmt_ctx (inputFile st) = None"
  then show "release st = invoke Release st"
    by (rule release_null)
next
  assume a: "2 \<le> length argv \<and> avformat_open_input L (argv ! 1) < 0"
  then have oi: "open_input L (argv ! 1) started =
         (- 1, printf (Could_not_open (argv ! 1)) (invoke (Avformat_open_input (argv ! 1))
            (set_a_index (- 1) (set_v_index (- 1) (set_fmt_ctx None started)))))"
    by (simp add: open_input_def Let_def)
  with a main_open_failed [of argv L]
  have "main L argv = Some (Inr (0, release (printf (Could_not_open (argv ! 1))
            (invoke (Avformat_open_input (argv ! 1))
            (set_a_index (- 1) (set_v_index (- 1) (set_fmt_ctx None started)))))))"
    by simp
  then show "\<exists>r. main L argv = Some (Inr (0, r)) \<and>
        calls r = [Av_register_all, Av_log_set_level, Avformat_open_input (argv ! 1), Release]"
    by (simp add: release_null)
qed

text \<open>The claim as the spec has it fails on the usage path: no call of \<^verbatim>\<open>release\<close> at all.\<close>

theorem release_once_counterexample:
  "main audio_only [''sample04''] = Some (Inr (0, printf (Usage ''sample04'') started)) \<and>
   count_list (calls (printf (Usage ''sample04'') started)) Release = 0"
  by (simp add: main_def)

theorem release_once_witness:
  "(\<exists>r. main with_subtitles [''sample04'', ''in.mkv''] = Some (Inr (0, r)) \<and>
      count_list (calls r) Release = 1) \<and>
   avformat_open_input not_a_media_file ([''sample04'', ''notes.txt''] ! 1) < 0 \<and>
   fmt_ctx (inputFile (snd (open_input not_a_media_file ''notes.txt'' started))) = None \<and>
   (\<exists>r. main not_a_media_file [''sample04'', ''notes.txt''] = Some (Inr (0, r)) \<and>
      calls r = [Av_register_all, Av_log_set_level, Avformat_open_input ''notes.txt'', Release])"
proof -
  have len: "2 \<le> length [''sample04'', ''in.mkv'']"
    by simp
  from release_once [of with_subtitles "[''sample04'', ''in.mkv'']", THEN conjunct1, rule_format,
      OF main_with_subtitles]
  have a: "\<exists>r. main with_subtitles [''sample04'', ''in.mkv''] = Some (Inr (0, r)) \<and>
      count_list (calls r) Release = 1"
    using main_with_subtitles by simp
  have b: "avformat_open_input not_a_media_file ([''sample04'', ''notes.txt''] ! 1) < 0"
    by (simp add: example_defs)
  have c: "fmt_ctx (inputFile (snd (open_input not_a_media_file ''notes.txt'' started))) = None"
    by (simp add: open_input_def example_defs)
  from release_once [of not_a_media_file "[''sample04'', ''notes.txt'']"] b
  have d: "\<exists>r. main not_a_media_file [''sample04'', ''notes.txt''] = Some (Inr (0, r)) \<and>
      calls r = [Av_register_all, Av_log_set_level, Avformat_open_input ''notes.txt'', Release]"
    by simp
  from a b c d show ?thesis
    by (intro conjI)
qed

subsection \<open>Exit status and messages\<close>

text \<open>
  C7, as the code has it. Every run that returns returns 0, the usage path included. A run whose
  \<^verbatim>\<open>open_input\<close> fails has printed one message when it goes on to \<^verbatim>\<open>release\<close>: that the
  file could not be opened, or that the stream information could not be retrieved. A run whose
  frame allocation fails goes on to \<^verbatim>\<open>release\<close> and has printed nothing.
\<close>

theorem exit_status_and_messages:
  "(\<forall>rc r. main L argv = Some (Inr (rc, r)) \<longrightarrow> rc = 0) \<and>
   (\<forall>a. argv = [a] \<longrightarrow> main L argv = Some (Inr (0, printf (Usage a) started))) \<and>
   (2 \<le> length argv \<and> fst (open_input L (argv ! 1) started) < 0 \<longrightarrow>
      main L argv = Some (Inr (0, release (snd (open_input L (argv ! 1) started)))) \<and>
      out (snd (open_input L (argv ! 1) started)) =
        [if avformat_open_input L (argv ! 1) < 0 then Could_not_open (argv ! 1)
         else Failed_stream_info] \<and>
      out (release (snd (open_input L (argv ! 1) started))) =
        out (snd (open_input L (argv ! 1) started))) \<and>
   (2 \<le> length argv \<and> \<not> fst (open_input L (argv ! 1) started) < 0 \<and> \<not> av_frame_alloc L \<longrightarrow>
      main L argv = Some (Inr (0, release (decoding L (argv ! 1)))) \<and>
      out (release (decoding L (argv ! 1))) = [])"
proof (intro conjI impI allI)
  fix rc r
  assume "main L argv = Some (Inr (rc, r))"
  then show "rc = 0"
    by (cases rule: main_cases)
next
  fix a
  assume "argv = [a]"
  then show "main L argv = Some (Inr (0, printf (Usage a) started))"
    by (simp add: main_def)
next
  assume a: "2 \<le> length argv \<and> fst (open_input L (argv ! 1) started) < 0"
  then show "main L argv = Some (Inr (0, release (snd (open_input L (argv ! 1) started))))"
    by (simp add: main_open_failed)
  obtain r st1 where oi: "open_input L (argv ! 1) started = (r, st1)"
    by (cases "open_input L (argv ! 1) started")
  from open_input_out [OF oi] a oi
  show "out (snd (open_input L (argv ! 1) started)) =
        [if avformat_open_input L (argv ! 1) < 0 then Could_not_open (argv ! 1)
         else Failed_stream_info]"
    by simp
  show "out (release (snd (open_input L (argv ! 1) started))) =
        out (snd (open_input L (argv ! 1) started))"
    by (simp add: release_state)
next
  assume a: "2 \<le> length argv \<and> \<not> fst (open_input L (argv ! 1) started) < 0 \<and> \<not> av_frame_alloc L"
  then show "main L argv = Some (Inr (0, release (decoding L (argv ! 1))))"
    by (simp add: main_no_frame_path)
  obtain r st1 where oi: "open_input L (argv ! 1) started = (r, st1)"
    by (cases "open_input L (argv ! 1) started")
  from open_input_out [OF oi] a oi
  show "out (release (decoding L (argv ! 1))) = []"
    by (simp add: release_state decoding_def)
qed

text \<open>The claim as the spec has it fails when the frame cannot be allocated: the run ends with
  status 0 and has printed nothing.\<close>

theorem exit_status_and_messages_counterexample:
  "main no_frame [''sample04'', ''in.mp4''] =
     Some (Inr (0,
      \<lparr>inputFile = \<lparr>fmt_ctx = None, v_index = - 1, a_index = 0\<rparr>,
       out = [],
       calls = [Av_register_all, Av_log_set_level, Avformat_open_input ''in.mp4'',
                Avformat_find_stream_info, Avcodec_find_decoder 86018, Avcodec_open2 0,
                Av_frame_alloc, Release, Avcodec_close 0, Avformat_close_input]\<rparr>))"
  by (rule main_no_frame)

theorem exit_status_and_messages_witness:
  "2 \<le> length [''sample04'', ''notes.txt''] \<and>
   fst (open_input not_a_media_file ([''sample04'', ''notes.txt''] ! 1) started) < 0 \<and>
   main not_a_media_file [''sample04'', ''notes.txt''] =
     Some (Inr (0, release (snd (open_input not_a_media_file ''notes.txt'' started)))) \<and>
   out (release (snd (open_input not_a_media_file ''notes.txt'' started))) =
     [Could_not_open ''notes.txt''] \<and>
   \<not> fst (open_input no_frame ([''sample04'', ''in.mp4''] ! 1) started) < 0 \<and>
   \<not> av_frame_alloc no_frame \<and>
   main no_frame [''sample04'', ''in.mp4''] =
     Some (Inr (0, release (decoding no_frame ''in.mp4''))) \<and>
   out (release (decoding no_frame ''in.mp4'')) = []"
proof -
  have a: "2 \<le> length [''sample04'', ''notes.txt''] \<and>
      fst (open_input not_a_media_file ([''sample04'', ''notes.txt''] ! 1) started) < 0"
    by (simp add: open_input_def example_defs)
  have o: "avformat_open_input not_a_media_file ''notes.txt'' < 0"
    by (simp add: example_defs)
  have b: "2 \<le> length [''sample04'', ''in.mp4''] \<and>
      \<not> fst (open_input no_frame ([''sample04'', ''in.mp4''] ! 1) started) < 0 \<and>
      \<not> av_frame_alloc no_frame"
    by (simp add: program_defs example_defs)
  from exit_status_and_messages [of not_a_media_file "[''sample04'', ''notes.txt'']",
      THEN conjunct2, THEN conjunct2, THEN conjunct1, rule_format, OF a]
    exit_status_and_messages [of no_frame "[''sample04'', ''in.mp4'']",
      THEN conjunct2, THEN conjunct2, THEN conjunct2, rule_format, OF b]
    a b o
  show ?thesis
    by simp
qed

subsection \<open>The selected indices\<close>

lemma scanned_ok_selected_ok:
  "scanned_ok t L i es idx \<Longrightarrow> selected_ok t L es idx"
  by (auto simp: scanned_ok_def selected_ok_def)

lemma scanned_ok_negative:
  "scanned_ok t L i es idx \<Longrightarrow> sint idx < 0 \<Longrightarrow>
     idx = - 1 \<and> (\<forall>j \<in> set [0..<i]. codec_type (streams (container L) ! j) \<noteq> t)"
  by (auto simp: scanned_ok_def)

lemma scanned_ok_next:
  assumes "scanned_ok t L i es idx" and "set es \<subseteq> set es'"
    and "codec_type (streams (container L) ! i) \<noteq> t \<or> 0 \<le> sint idx"
  shows "scanned_ok t L (Suc i) es' idx"
  using assms by (auto simp: scanned_ok_def less_Suc_eq)

lemma scanned_ok_select:
  assumes "i < nb_streams (container L)" and "nb_streams (container L) \<le> 2 ^ 31"
    and "codec_type (streams (container L) ! i) = t"
    and "\<forall>j \<in> set [0..<i]. codec_type (streams (container L) ! j) \<noteq> t"
    and "decoder_opens L (streams (container L) ! i)" and "Avcodec_open2 i \<in> set es"
  shows "scanned_ok t L (Suc i) es (word_of_nat i)"
proof -
  have "i < 2 ^ 31"
    using assms(1,2) by simp
  then have "sint (word_of_nat i :: 32 word) = int i"
    by (rule sint_word_of_nat)
  with assms show ?thesis
    by (simp add: scanned_ok_def first_of_kind_def)
qed

lemma opened_are_selected_iff:
  "opened_are_selected L st \<longleftrightarrow>
     (\<forall>p. Avcodec_open2 p \<in> set (calls st) \<longrightarrow>
        decoder_opens L (streams (container L) ! p) \<longrightarrow>
        word_of_nat p = v_index (inputFile st) \<or> word_of_nat p = a_index (inputFile st))"
proof
  assume l: "opened_are_selected L st"
  show "\<forall>p. Avcodec_open2 p \<in> set (calls st) \<longrightarrow>
        decoder_opens L (streams (container L) ! p) \<longrightarrow>
        word_of_nat p = v_index (inputFile st) \<or> word_of_nat p = a_index (inputFile st)"
  proof (intro allI impI)
    fix p
    assume "Avcodec_open2 p \<in> set (calls st)" and "decoder_opens L (streams (container L) ! p)"
    with l [unfolded opened_are_selected_def, THEN bspec, of "Avcodec_open2 p"]
    show "word_of_nat p = v_index (inputFile st) \<or> word_of_nat p = a_index (inputFile st)"
      by simp
  qed
next
  assume "\<forall>p. Avcodec_open2 p \<in> set (calls st) \<longrightarrow>
        decoder_opens L (streams (container L) ! p) \<longrightarrow>
        word_of_nat p = v_index (inputFile st) \<or> word_of_nat p = a_index (inputFile st)"
  then show "opened_are_selected L st"
    unfolding opened_are_selected_def by (auto split: libcall.splits)
qed

lemma scan_inv_post:
  "scan_inv L i st \<Longrightarrow> scan_post L st"
  by (auto simp: scan_inv_def scan_post_def opened_are_selected_iff intro: scanned_ok_selected_ok)

lemma scan_inv_video:
  assumes n: "nb_streams (container L) \<le> 2 ^ 31" and i: "i < nb_streams (container L)"
    and inv: "scan_inv L i st" and cand: "video_candidate (streams (container L) ! i) st"
    and od: "open_decoder L (i, streams (container L) ! i) st = (r, st1)" and ok: "\<not> r < 0"
  shows "scan_inv L (Suc i) (set_v_index (word_of_nat i) st1)"
proof -
  note st1 = open_decoder_state [OF od] open_decoder_ok [OF od ok]
  from cand have t: "codec_type (streams (container L) ! i) = AVMEDIA_TYPE_VIDEO"
    and neg: "sint (v_index (inputFile st)) < 0"
    by (simp_all add: video_candidate_def)
  from inv have v: "scanned_ok AVMEDIA_TYPE_VIDEO L i (calls st) (v_index (inputFile st))"
    and a: "scanned_ok AVMEDIA_TYPE_AUDIO L i (calls st) (a_index (inputFile st))"
    and opened: "\<And>p. Avcodec_open2 p \<in> set (calls st) \<Longrightarrow> p < i \<and>
        (decoder_opens L (streams (container L) ! p) \<longrightarrow>
           word_of_nat p = v_index (inputFile st) \<or> word_of_nat p = a_index (inputFile st))"
    by (simp_all add: scan_inv_def)
  from scanned_ok_negative [OF v neg] have v1: "v_index (inputFile st) = - 1"
    and none: "\<forall>j \<in> set [0..<i]. codec_type (streams (container L) ! j) \<noteq> AVMEDIA_TYPE_VIDEO"
    by simp_all
  have "scanned_ok AVMEDIA_TYPE_VIDEO L (Suc i) (calls st1) (word_of_nat i)"
    using i n t none st1(4) by (intro scanned_ok_select) (simp_all add: st1(5))
  moreover have "scanned_ok AVMEDIA_TYPE_AUDIO L (Suc i) (calls st1) (a_index (inputFile st))"
    using a t by (intro scanned_ok_next [where es = "calls st"]) (auto simp: st1(5))
  moreover have "p < Suc i \<and> (decoder_opens L (streams (container L) ! p) \<longrightarrow>
           word_of_nat p = (word_of_nat i :: 32 word) \<or> word_of_nat p = a_index (inputFile st))"
    if "Avcodec_open2 p \<in> set (calls st1)" for p
  proof (cases "p = i")
    case True
    then show ?thesis by simp
  next
    case False
    with that have old: "Avcodec_open2 p \<in> set (calls st)"
      by (simp add: st1(5))
    from opened [OF old] i n have "p < 2 ^ 32 - 1"
      by simp
    then have "word_of_nat p \<noteq> (- 1 :: 32 word)"
      by (rule word_of_nat_neq_minus_one)
    with opened [OF old] v1 show ?thesis
      by auto
  qed
  ultimately show ?thesis
    by (simp add: scan_inv_def st1(1))
qed

lemma scan_inv_audio:
  assumes n: "nb_streams (container L) \<le> 2 ^ 31" and i: "i < nb_streams (container L)"
    and inv: "scan_inv L i st" and cand: "audio_candidate (streams (container L) ! i) st"
    and od: "open_decoder L (i, streams (container L) ! i) st = (r, st1)" and ok: "\<not> r < 0"
  shows "scan_inv L (Suc i) (set_a_index (word_of_nat i) st1)"
proof -
  note st1 = open_decoder_state [OF od] open_decoder_ok [OF od ok]
  from cand have t: "codec_type (streams (container L) ! i) = AVMEDIA_TYPE_AUDIO"
    and neg: "sint (a_index (inputFile st)) < 0"
    by (simp_all add: audio_candidate_def)
  from inv have v: "scanned_ok AVMEDIA_TYPE_VIDEO L i (calls st) (v_index (inputFile st))"
    and a: "scanned_ok AVMEDIA_TYPE_AUDIO L i (calls st) (a_index (inputFile st))"
    and opened: "\<And>p. Avcodec_open2 p \<in> set (calls st) \<Longrightarrow> p < i \<and>
        (decoder_opens L (streams (container L) ! p) \<longrightarrow>
           word_of_nat p = v_index (inputFile st) \<or> word_of_nat p = a_index (inputFile st))"
    by (simp_all add: scan_inv_def)
  from scanned_ok_negative [OF a neg] have a1: "a_index (inputFile st) = - 1"
    and none: "\<forall>j \<in> set [0..<i]. codec_type (streams (container L) ! j) \<noteq> AVMEDIA_TYPE_AUDIO"
    by simp_all
  have "scanned_ok AVMEDIA_TYPE_AUDIO L (Suc i) (calls st1) (word_of_nat i)"
    using i n t none st1(4) by (intro scanned_ok_select) (simp_all add: st1(5))
  moreover have "scanned_ok AVMEDIA_TYPE_VIDEO L (Suc i) (calls st1) (v_index (inputFile st))"
    using v t by (intro scanned_ok_next [where es = "calls st"]) (auto simp: st1(5))
  moreover have "p < Suc i \<and> (decoder_opens L (streams (container L) ! p) \<longrightarrow>
           word_of_nat p = v_index (inputFile st) \<or> word_of_nat p = (word_of_nat i :: 32 word))"
    if "Avcodec_open2 p \<in> set (calls st1)" for p
  proof (cases "p = i")
    case True
    then show ?thesis by simp
  next
    case False
    with that have old: "Avcodec_open2 p \<in> set (calls st)"
      by (simp add: st1(5))
    from opened [OF old] i n have "p < 2 ^ 32 - 1"
      by simp
    then have "word_of_nat p \<noteq> (- 1 :: 32 word)"
      by (rule word_of_nat_neq_minus_one)
    with opened [OF old] a1 show ?thesis
      by auto
  qed
  ultimately show ?thesis
    by (simp add: scan_inv_def st1(1))
qed

lemma scan_inv_skip:
  assumes inv: "scan_inv L i st"
    and nv: "\<not> video_candidate (streams (container L) ! i) st"
    and na: "\<not> audio_candidate (streams (container L) ! i) st"
  shows "scan_inv L (Suc i) st"
proof -
  from inv have v: "scanned_ok AVMEDIA_TYPE_VIDEO L i (calls st) (v_index (inputFile st))"
    and a: "scanned_ok AVMEDIA_TYPE_AUDIO L i (calls st) (a_index (inputFile st))"
    and opened: "\<And>p. Avcodec_open2 p \<in> set (calls st) \<Longrightarrow> p < i \<and>
        (decoder_opens L (streams (container L) ! p) \<longrightarrow>
           word_of_nat p = v_index (inputFile st) \<or> word_of_nat p = a_index (inputFile st))"
    by (simp_all add: scan_inv_def)
  have "scanned_ok AVMEDIA_TYPE_VIDEO L (Suc i) (calls st) (v_index (inputFile st))"
    using v nv by (intro scanned_ok_next [where es = "calls st"]) (auto simp: video_candidate_def)
  moreover have "scanned_ok AVMEDIA_TYPE_AUDIO L (Suc i) (calls st) (a_index (inputFile st))"
    using a nv na
    by (intro scanned_ok_next [where es = "calls st"]) (auto simp: audio_candidate_def)
  ultimately show ?thesis
    using opened by (auto simp: scan_inv_def less_Suc_eq)
qed

lemma scan_inv_stop:
  assumes inv: "scan_inv L i st" and i: "i < nb_streams (container L)"
    and od: "open_decoder L (i, streams (container L) ! i) st = (r, st1)" and r: "r < 0"
  shows "scan_post L st1"
proof -
  note st1 = open_decoder_state [OF od]
  have bad: "\<not> decoder_opens L (streams (container L) ! i)"
    using open_decoder_fails_iff [of L i "streams (container L) ! i" st] od r by simp
  from inv have v: "scanned_ok AVMEDIA_TYPE_VIDEO L i (calls st) (v_index (inputFile st))"
    and a: "scanned_ok AVMEDIA_TYPE_AUDIO L i (calls st) (a_index (inputFile st))"
    and opened: "\<And>p. Avcodec_open2 p \<in> set (calls st) \<Longrightarrow> p < i \<and>
        (decoder_opens L (streams (container L) ! p) \<longrightarrow>
           word_of_nat p = v_index (inputFile st) \<or> word_of_nat p = a_index (inputFile st))"
    by (simp_all add: scan_inv_def)
  have sub: "set (calls st) \<subseteq> set (calls st1)"
    by (simp add: st1(3))
  have "selected_ok AVMEDIA_TYPE_VIDEO L (calls st1) (v_index (inputFile st))"
    using scanned_ok_selected_ok [OF v] sub by (auto simp: selected_ok_def)
  moreover have "selected_ok AVMEDIA_TYPE_AUDIO L (calls st1) (a_index (inputFile st))"
    using scanned_ok_selected_ok [OF a] sub by (auto simp: selected_ok_def)
  moreover have "decoder_opens L (streams (container L) ! p) \<longrightarrow>
      word_of_nat p = v_index (inputFile st) \<or> word_of_nat p = a_index (inputFile st)"
    if "Avcodec_open2 p \<in> set (calls st1)" for p
  proof (cases "p = i")
    case True
    with bad show ?thesis by simp
  next
    case False
    with that have "Avcodec_open2 p \<in> set (calls st)"
      by (auto simp: st1(3) split: if_splits)
    with opened show ?thesis by blast
  qed
  ultimately show ?thesis
    by (simp add: scan_post_def opened_are_selected_iff st1(1))
qed

lemma scan_streams_selection:
  assumes n: "nb_streams (container L) \<le> 2 ^ 31" and inv: "scan_inv L i st"
  shows "scan_post L (scan_streams L (container L) i st)"
  using inv
proof (rule scan_streams_rule [where P = "scan_inv L" and Q = "scan_post L"], goal_cases)
  case (1 i st r st1)
  then show ?case using n by (intro scan_inv_video)
next
  case (2 i st r st1)
  then show ?case using n by (intro scan_inv_audio)
next
  case (3 i st)
  then show ?case by (intro scan_inv_skip)
next
  case (4 i st r st1)
  then show ?case by (intro scan_inv_stop [where i = i and st = st and r = r])
next
  case (5 i st)
  then show ?case by (intro scan_inv_post [where i = i])
qed

lemma probed_scan_inv:
  "scan_inv L 0 (probed L filename)"
  by (simp add: scan_inv_def scanned_ok_def probed_def)

lemma open_input_selection:
  assumes "nb_streams (container L) \<le> 2 ^ 31"
  shows "scan_post L (snd (open_input L filename started))"
proof (cases L filename started rule: open_input_cases)
  case open_failed
  then show ?thesis
    by (simp add: scan_post_def selected_ok_def opened_are_selected_iff)
next
  case probe_failed
  then show ?thesis
    by (simp add: scan_post_def selected_ok_def opened_are_selected_iff)
next
  case (scanned st4)
  from scanned(3) have "st4 = scan_streams L (container L) 0 (probed L filename)"
    by (simp add: probed_def)
  with scan_streams_selection [OF assms probed_scan_inv, of filename]
  have "scan_post L st4"
    by simp
  with scanned(4) show ?thesis
    by (simp add: scan_post_def opened_are_selected_iff)
qed

lemma scan_streams_keeps_video:
  assumes "0 \<le> sint (v_index (inputFile st))"
  shows "v_index (inputFile (scan_streams L c i st)) = v_index (inputFile st)"
proof (rule scan_streams_rule [where P = "\<lambda>_ s. v_index (inputFile s) = v_index (inputFile st)"],
    goal_cases)
  case 1
  show ?case by simp
next
  case (2 i s r s1)
  with assms show ?case by (simp add: video_candidate_def)
next
  case (3 i s r s1)
  with open_decoder_state(1) [OF 3(4)] show ?case by simp
next
  case (4 i s)
  then show ?case by simp
next
  case (5 i s r s1)
  with open_decoder_state(1) [OF 5(4)] show ?case by simp
next
  case (6 i s)
  then show ?case by simp
qed

lemma scan_streams_keeps_audio:
  assumes "0 \<le> sint (a_index (inputFile st))"
  shows "a_index (inputFile (scan_streams L c i st)) = a_index (inputFile st)"
proof (rule scan_streams_rule [where P = "\<lambda>_ s. a_index (inputFile s) = a_index (inputFile st)"],
    goal_cases)
  case 1
  show ?case by simp
next
  case (2 i s r s1)
  with open_decoder_state(1) [OF 2(4)] show ?case by simp
next
  case (3 i s r s1)
  with assms show ?case by (simp add: audio_candidate_def)
next
  case (4 i s)
  then show ?case by simp
next
  case (5 i s r s1)
  with open_decoder_state(1) [OF 5(4)] show ?case by simp
next
  case (6 i s)
  then show ?case by simp
qed

lemma main_indices:
  assumes "main L argv = Some (Inr (rc, r))" and "2 \<le> length argv"
  shows "v_index (inputFile r) = v_index (inputFile (snd (open_input L (argv ! 1) started))) \<and>
    a_index (inputFile r) = a_index (inputFile (snd (open_input L (argv ! 1) started)))"
  using assms(1)
proof (cases rule: main_cases)
  case (usage a)
  with assms(2) show ?thesis by simp
next
  case (open_failed ret st1)
  then show ?thesis by (simp add: release_state)
next
  case (no_frame ret st1)
  then show ?thesis by (simp add: release_state decoding_def)
next
  case (decoded ret st1 st3)
  from decode_loop_counts [OF decoded(6)]
  have "inputFile st3 = inputFile (decoding L (argv ! 1))"
    by blast
  with decoded show ?thesis by (simp add: release_state decoding_def)
qed

subsection \<open>The first stream of each kind\<close>

text \<open>
  C8. For a container whose positions all fit an \<^verbatim>\<open>int\<close> (at most \<open>2 ^ 31\<close> streams), after
  \<^verbatim>\<open>open_input\<close> each of the two index fields is \<open>-1\<close> or names the first stream of its kind in
  container order, whose decoder opened; it is \<open>-1\<close> when the container has no stream of the
  kind; and every stream whose decoder the run opened is named by one of the two fields, so at
  most one stream of each kind is selected. An index that is not negative is not changed by the
  rest of the scan, by a pass of the decode loop, or by \<^verbatim>\<open>release\<close>: the final state of a run
  has the indices \<^verbatim>\<open>open_input\<close> left.
\<close>

theorem selection_first_of_kind:
  assumes "nb_streams (container L) \<le> 2 ^ 31"
  shows "selected_ok AVMEDIA_TYPE_VIDEO L (calls (snd (open_input L filename started)))
       (v_index (inputFile (snd (open_input L filename started)))) \<and>
    selected_ok AVMEDIA_TYPE_AUDIO L (calls (snd (open_input L filename started)))
       (a_index (inputFile (snd (open_input L filename started)))) \<and>
    opened_are_selected L (snd (open_input L filename started)) \<and>
    ((\<forall>j \<in> set [0..<nb_streams (container L)].
        codec_type (streams (container L) ! j) \<noteq> AVMEDIA_TYPE_VIDEO) \<longrightarrow>
      v_index (inputFile (snd (open_input L filename started))) = - 1) \<and>
    ((\<forall>j \<in> set [0..<nb_streams (container L)].
        codec_type (streams (container L) ! j) \<noteq> AVMEDIA_TYPE_AUDIO) \<longrightarrow>
      a_index (inputFile (snd (open_input L filename started))) = - 1) \<and>
    (\<forall>c i st. 0 \<le> sint (v_index (inputFile st)) \<longrightarrow>
       v_index (inputFile (scan_streams L c i st)) = v_index (inputFile st)) \<and>
    (\<forall>c i st. 0 \<le> sint (a_index (inputFile st)) \<longrightarrow>
       a_index (inputFile (scan_streams L c i st)) = a_index (inputFile st)) \<and>
    (\<forall>k st st'. loop_body L k st = Continue st' \<or> loop_body L k st = Break st' \<longrightarrow>
       inputFile st' = inputFile st) \<and>
    (\<forall>st. v_index (inputFile (release st)) = v_index (inputFile st) \<and>
       a_index (inputFile (release st)) = a_index (inputFile st)) \<and>
    (\<forall>argv rc r. main L argv = Some (Inr (rc, r)) \<and> 2 \<le> length argv \<longrightarrow>
       v_index (inputFile r) = v_index (inputFile (snd (open_input L (argv ! 1) started))) \<and>
       a_index (inputFile r) = a_index (inputFile (snd (open_input L (argv ! 1) started))))"
proof -
  let ?S = "snd (open_input L filename started)"
  from open_input_selection [OF assms, of filename]
  have v: "selected_ok AVMEDIA_TYPE_VIDEO L (calls ?S) (v_index (inputFile ?S))"
    and a: "selected_ok AVMEDIA_TYPE_AUDIO L (calls ?S) (a_index (inputFile ?S))"
    and o: "opened_are_selected L ?S"
    by (simp_all add: scan_post_def)
  have none: "idx = - 1"
    if "selected_ok t L es idx"
      and "\<forall>j \<in> set [0..<nb_streams (container L)]. codec_type (streams (container L) ! j) \<noteq> t"
    for t es idx
    using that by (auto simp: selected_ok_def first_of_kind_def)
  have keep: "\<forall>argv rc r. main L argv = Some (Inr (rc, r)) \<and> 2 \<le> length argv \<longrightarrow>
       v_index (inputFile r) = v_index (inputFile (snd (open_input L (argv ! 1) started))) \<and>
       a_index (inputFile r) = a_index (inputFile (snd (open_input L (argv ! 1) started)))"
    using main_indices by blast
  have body: "\<forall>k st st'. loop_body L k st = Continue st' \<or> loop_body L k st = Break st' \<longrightarrow>
       inputFile st' = inputFile st"
    using loop_body_inputFile by blast
  from v a o none [OF v] none [OF a] keep body show ?thesis
    by (simp add: scan_streams_keeps_video scan_streams_keeps_audio release_state)
qed

theorem selection_first_of_kind_witness:
  "nb_streams (container two_videos) \<le> 2 ^ 31 \<and>
   v_index (inputFile (snd (open_input two_videos ''in.mkv'' started))) = 0 \<and>
   a_index (inputFile (snd (open_input two_videos ''in.mkv'' started))) = 1 \<and>
   calls (snd (open_input two_videos ''in.mkv'' started)) =
     [Av_register_all, Av_log_set_level, Avformat_open_input ''in.mkv'', Avformat_find_stream_info,
      Avcodec_find_decoder 28, Avcodec_open2 0, Avcodec_find_decoder 86018, Avcodec_open2 1] \<and>
   selected_ok AVMEDIA_TYPE_VIDEO two_videos (calls (snd (open_input two_videos ''in.mkv'' started)))
       (v_index (inputFile (snd (open_input two_videos ''in.mkv'' started)))) \<and>
   first_of_kind AVMEDIA_TYPE_VIDEO (container two_videos) 0 \<and>
   codec_type (streams (container two_videos) ! 2) = AVMEDIA_TYPE_VIDEO \<and>
   opened_are_selected two_videos (snd (open_input two_videos ''in.mkv'' started))"
proof -
  have n: "nb_streams (container two_videos) \<le> 2 ^ 31"
    by (simp add: example_defs nb_streams_def)
  have s: "snd (open_input two_videos ''in.mkv'' started) =
     \<lparr>inputFile = \<lparr>fmt_ctx = Some (container two_videos), v_index = 0, a_index = 1\<rparr>,
      out = [],
      calls = [Av_register_all, Av_log_set_level, Avformat_open_input ''in.mkv'',
               Avformat_find_stream_info, Avcodec_find_decoder 28, Avcodec_open2 0,
               Avcodec_find_decoder 86018, Avcodec_open2 1]\<rparr>"
    by (simp add: program_defs example_defs)
  have f: "first_of_kind AVMEDIA_TYPE_VIDEO (container two_videos) 0"
    and t: "codec_type (streams (container two_videos) ! 2) = AVMEDIA_TYPE_VIDEO"
    by (simp_all add: first_of_kind_def nb_streams_def example_defs)
  note th = selection_first_of_kind [OF n, of "''in.mkv''"]
  from th [THEN conjunct1] th [THEN conjunct2, THEN conjunct2, THEN conjunct1] n f t
  show ?thesis
    by (simp add: s)
qed

subsection \<open>The invariant of the selected indices\<close>

lemma selected_ok_mono:
  "selected_ok t L es idx \<Longrightarrow> set es \<subseteq> set es' \<Longrightarrow> selected_ok t L es' idx"
  by (auto simp: selected_ok_def)

lemma selection_inv_mono:
  assumes "selection_inv L st" and "v_index (inputFile st') = v_index (inputFile st)"
    and "a_index (inputFile st') = a_index (inputFile st)"
    and "fmt_ctx (inputFile st') = None \<or> fmt_ctx (inputFile st') = Some (container L)"
    and "set (calls st) \<subseteq> set (calls st')"
  shows "selection_inv L st'"
proof -
  from assms(1) have v: "selected_ok AVMEDIA_TYPE_VIDEO L (calls st) (v_index (inputFile st))"
    and a: "selected_ok AVMEDIA_TYPE_AUDIO L (calls st) (a_index (inputFile st))"
    by (simp_all add: selection_inv_def)
  from selected_ok_mono [OF v assms(5)] selected_ok_mono [OF a assms(5)] assms(2,3,4)
  show ?thesis
    by (simp add: selection_inv_def)
qed

lemma selection_inv_loop_body:
  assumes "selection_inv L st"
    and "loop_body L k st = Continue st' \<or> loop_body L k st = Break st'"
  shows "selection_inv L st'"
proof -
  have f: "inputFile st' = inputFile st"
    using assms(2) by (rule loop_body_inputFile)
  have sub: "set (calls st) \<subseteq> set (calls st')"
    using assms(2)
  proof (elim disjE)
    assume "loop_body L k st = Continue st'"
    then show ?thesis
      by (cases rule: loop_body_Continue) auto
  next
    assume "loop_body L k st = Break st'"
    from loop_body_Break(2) [OF this] show ?thesis
      by auto
  qed
  show ?thesis
  proof (rule selection_inv_mono [OF assms(1) _ _ _ sub])
    show "v_index (inputFile st') = v_index (inputFile st)"
      and "a_index (inputFile st') = a_index (inputFile st)"
      by (simp_all add: f)
    show "fmt_ctx (inputFile st') = None \<or> fmt_ctx (inputFile st') = Some (container L)"
      using assms(1) by (simp add: f selection_inv_def)
  qed
qed

lemma selection_inv_release:
  assumes "selection_inv L st"
  shows "selection_inv L (release st)"
proof -
  have sub: "set (calls st) \<subseteq> set (calls (release st))"
    by (cases "fmt_ctx (inputFile st)") (auto simp: release_null release_open)
  show ?thesis
    by (rule selection_inv_mono [OF assms _ _ _ sub]) (simp_all add: release_state)
qed

lemma selection_inv_invoke:
  "selection_inv L st \<Longrightarrow> selection_inv L (invoke e st)"
  by (rule selection_inv_mono [where st = st]) (auto simp: selection_inv_def)

lemma open_input_selection_inv:
  assumes "nb_streams (container L) \<le> 2 ^ 31"
  shows "selection_inv L (snd (open_input L filename started))"
proof -
  obtain r st1 where oi: "open_input L filename started = (r, st1)"
    by (cases "open_input L filename started")
  from open_input_selection [OF assms, of filename] open_input_fmt_ctx [OF oi] oi
  show ?thesis
    by (simp add: selection_inv_def scan_post_def)
qed

lemma decode_loop_selection_inv:
  assumes "decode_loop L k st = Some (Inr st')" and "selection_inv L st"
  shows "selection_inv L st'"
proof -
  have "\<exists>n s1. k \<le> n \<and> selection_inv L s1 \<and> loop_body L n s1 = Break st'"
    using assms
  proof (rule decode_loop_rule [where I = "\<lambda>_. selection_inv L"])
    fix n s s1
    assume "selection_inv L s" and "loop_body L n s = Continue s1"
    then show "selection_inv L s1"
      using selection_inv_loop_body [of L s n s1] by simp
  qed
  then obtain n s1 where "selection_inv L s1" and "loop_body L n s1 = Break st'"
    by blast
  then show ?thesis
    using selection_inv_loop_body [of L s1 n st'] by simp
qed

lemma main_selection_inv:
  assumes n: "nb_streams (container L) \<le> 2 ^ 31"
    and run: "main L argv = Some (Inr (rc, r))" and len: "2 \<le> length argv"
  shows "selection_inv L r"
  using run
proof (cases rule: main_cases)
  case (usage a)
  with len show ?thesis by simp
next
  case (open_failed ret st1)
  with open_input_selection_inv [OF n, of "argv ! 1"] show ?thesis
    by (simp add: selection_inv_release)
next
  case (no_frame ret st1)
  with open_input_selection_inv [OF n, of "argv ! 1"] show ?thesis
    by (simp add: decoding_def selection_inv_release selection_inv_invoke)
next
  case (decoded ret st1 st3)
  from open_input_selection_inv [OF n, of "argv ! 1"]
  have "selection_inv L (decoding L (argv ! 1))"
    by (simp add: decoding_def selection_inv_invoke)
  from decode_loop_selection_inv [OF decoded(6) this] decoded(7) show ?thesis
    by (simp add: selection_inv_release selection_inv_invoke)
qed

text \<open>An \<^verbatim>\<open>unsigned\<close> loop index equals an index field exactly when the field is set and is
  that position; \<open>-1\<close> equals none.\<close>

lemma index_match:
  assumes "p < 2 ^ 31" and "idx = - 1 \<or> 0 \<le> sint idx"
  shows "word_of_nat p = (idx :: 32 word) \<longleftrightarrow> 0 \<le> sint idx \<and> p = nat (sint idx)"
proof (cases "idx = - 1")
  case True
  from assms(1) have "p < 2 ^ 32 - 1" by simp
  then have "word_of_nat p \<noteq> (- 1 :: 32 word)"
    by (rule word_of_nat_neq_minus_one)
  with True show ?thesis by simp
next
  case False
  with assms(2) have nonneg: "0 \<le> sint idx" by simp
  show ?thesis
  proof
    assume "word_of_nat p = idx"
    with sint_word_of_nat [OF assms(1)] have "sint idx = int p" by simp
    then show "0 \<le> sint idx \<and> p = nat (sint idx)" by simp
  next
    assume "0 \<le> sint idx \<and> p = nat (sint idx)"
    then show "word_of_nat p = idx" by simp
  qed
qed

lemma closed_are_selected:
  assumes "n \<le> 2 ^ 31"
    and "v_index f = - 1 \<or> 0 \<le> sint (v_index f)" and "a_index f = - 1 \<or> 0 \<le> sint (a_index f)"
  shows "closed_positions f 0 n = selected_positions f n"
  unfolding closed_positions_def selected_positions_def
proof (rule filter_cong [OF refl])
  fix p
  assume "p \<in> set [0..<n]"
  with assms(1) have "p < 2 ^ 31" by simp
  from index_match [OF this assms(2)] index_match [OF this assms(3)]
  show "(word_of_nat p = v_index f \<or> word_of_nat p = a_index f) =
    (0 \<le> sint (v_index f) \<and> p = nat (sint (v_index f)) \<or>
     0 \<le> sint (a_index f) \<and> p = nat (sint (a_index f)))"
    by simp
qed

lemma selected_ok_shape:
  "selected_ok t L es idx \<Longrightarrow> idx = - 1 \<or> 0 \<le> sint idx"
  by (auto simp: selected_ok_def)

lemma selected_positions_opened:
  assumes "selection_inv L st" and "p \<in> set (selected_positions (inputFile st) n)"
  shows "Avcodec_open2 p \<in> set (calls st) \<and> decoder_opens L (streams (container L) ! p)"
  using assms by (auto simp: selection_inv_def selected_ok_def selected_positions_def)

text \<open>
  C10. For a container whose positions all fit an \<^verbatim>\<open>int\<close>, \<^verbatim>\<open>open_input\<close> leaves the two index
  fields in order: each is \<open>-1\<close>, or it is not negative and names a stream of its kind (the first
  one) whose decoder the library opens and the run has opened. Every later step keeps that: a
  library call, a pass of the decode loop, \<^verbatim>\<open>release\<close>; so it holds of the final state of a
  run. On such a state with an open container \<^verbatim>\<open>release\<close> closes the decoders of exactly the
  selected positions, each of which was opened, and then the container. No position of a stream
  equals \<open>-1\<close> as an \<^verbatim>\<open>unsigned int\<close>.
\<close>

theorem selection_invariant:
  assumes "nb_streams (container L) \<le> 2 ^ 31"
  shows "selection_inv L (snd (open_input L filename started)) \<and>
    (\<forall>e st. selection_inv L st \<longrightarrow> selection_inv L (invoke e st)) \<and>
    (\<forall>k st st'. selection_inv L st \<and>
        (loop_body L k st = Continue st' \<or> loop_body L k st = Break st') \<longrightarrow>
        selection_inv L st') \<and>
    (\<forall>st. selection_inv L st \<longrightarrow> selection_inv L (release st)) \<and>
    (\<forall>argv rc r. main L argv = Some (Inr (rc, r)) \<and> 2 \<le> length argv \<longrightarrow> selection_inv L r) \<and>
    (\<forall>st c. selection_inv L st \<and> fmt_ctx (inputFile st) = Some c \<longrightarrow>
        calls (release st) =
          calls st @ [Release] @
          map Avcodec_close (selected_positions (inputFile st) (nb_streams c)) @
          [Avformat_close_input] \<and>
        (\<forall>p \<in> set (selected_positions (inputFile st) (nb_streams c)).
           Avcodec_open2 p \<in> set (calls st) \<and> decoder_opens L (streams c ! p))) \<and>
    (\<forall>p. p < nb_streams (container L) \<longrightarrow> word_of_nat p \<noteq> (- 1 :: 32 word))"
proof (intro conjI allI impI ballI)
  show "selection_inv L (snd (open_input L filename started))"
    using assms by (rule open_input_selection_inv)
next
  fix e st
  assume "selection_inv L st"
  then show "selection_inv L (invoke e st)"
    by (rule selection_inv_invoke)
next
  fix k st st'
  assume "selection_inv L st \<and> (loop_body L k st = Continue st' \<or> loop_body L k st = Break st')"
  then show "selection_inv L st'"
    using selection_inv_loop_body by blast
next
  fix st
  assume "selection_inv L st"
  then show "selection_inv L (release st)"
    by (rule selection_inv_release)
next
  fix argv rc r
  assume "main L argv = Some (Inr (rc, r)) \<and> 2 \<le> length argv"
  then show "selection_inv L r"
    using main_selection_inv [OF assms] by blast
next
  fix st c
  assume a: "selection_inv L st \<and> fmt_ctx (inputFile st) = Some c"
  then have c: "c = container L"
    by (auto simp: selection_inv_def)
  from a have "v_index (inputFile st) = - 1 \<or> 0 \<le> sint (v_index (inputFile st))"
    and "a_index (inputFile st) = - 1 \<or> 0 \<le> sint (a_index (inputFile st))"
    by (auto simp: selection_inv_def dest: selected_ok_shape)
  with assms c
  have "closed_positions (inputFile st) 0 (nb_streams c) = selected_positions (inputFile st) (nb_streams c)"
    by (intro closed_are_selected) simp_all
  with a show "calls (release st) =
          calls st @ [Release] @
          map Avcodec_close (selected_positions (inputFile st) (nb_streams c)) @
          [Avformat_close_input]"
    by (simp add: release_open)
next
  fix st c p
  assume a: "selection_inv L st \<and> fmt_ctx (inputFile st) = Some c"
    and p: "p \<in> set (selected_positions (inputFile st) (nb_streams c))"
  from a have c: "c = container L"
    by (auto simp: selection_inv_def)
  from a have "selection_inv L st" by simp
  from selected_positions_opened [OF this p] c
  show "Avcodec_open2 p \<in> set (calls st)" and "decoder_opens L (streams c ! p)"
    by simp_all
next
  fix p
  assume "p < nb_streams (container L)"
  with assms have "p < 2 ^ 32 - 1" by simp
  then show "word_of_nat p \<noteq> (- 1 :: 32 word)"
    by (rule word_of_nat_neq_minus_one)
qed

theorem selection_invariant_witness:
  "nb_streams (container two_videos) \<le> 2 ^ 31 \<and>
   selection_inv two_videos (decoding two_videos ''in.mkv'') \<and>
   fmt_ctx (inputFile (decoding two_videos ''in.mkv'')) = Some (container two_videos) \<and>
   selected_positions (inputFile (decoding two_videos ''in.mkv'')) (nb_streams (container two_videos)) =
     [0, 1] \<and>
   calls (release (decoding two_videos ''in.mkv'')) =
     calls (decoding two_videos ''in.mkv'') @
     [Release, Avcodec_close 0, Avcodec_close 1, Avformat_close_input]"
proof -
  have n: "nb_streams (container two_videos) \<le> 2 ^ 31"
    by (simp add: example_defs nb_streams_def)
  note th = selection_invariant [OF n, of "''in.mkv''"]
  have inv: "selection_inv two_videos (decoding two_videos ''in.mkv'')"
    unfolding decoding_def
    using th [THEN conjunct1] th [THEN conjunct2, THEN conjunct1] by blast
  have d: "inputFile (decoding two_videos ''in.mkv'') =
      \<lparr>fmt_ctx = Some (container two_videos), v_index = 0, a_index = 1\<rparr>"
    by (simp add: decoding_def program_defs example_defs)
  have three: "[0..<3] = [0, 1, Suc 1 :: nat]"
    by (simp add: upt_rec)
  have nb: "nb_streams (container two_videos) = 3"
    by (simp add: example_defs nb_streams_def)
  have "selected_positions \<lparr>fmt_ctx = Some (container two_videos), v_index = 0, a_index = 1\<rparr> 3 =
      [0, 1]"
    by (simp add: selected_positions_def three)
  then have pos: "selected_positions (inputFile (decoding two_videos ''in.mkv''))
      (nb_streams (container two_videos)) = [0, 1]"
    by (simp only: d nb)
  have f: "fmt_ctx (inputFile (decoding two_videos ''in.mkv'')) = Some (container two_videos)"
    by (simp add: d)
  from th [THEN conjunct2, THEN conjunct2, THEN conjunct2, THEN conjunct2, THEN conjunct2,
      THEN conjunct1, rule_format, OF conjI [OF inv f], THEN conjunct1]
  have "calls (release (decoding two_videos ''in.mkv'')) =
     calls (decoding two_videos ''in.mkv'') @
     [Release, Avcodec_close 0, Avcodec_close 1, Avformat_close_input]"
    by (simp add: pos)
  with n inv f pos show ?thesis
    by (intro conjI)
qed

subsection \<open>The test after the scan\<close>

text \<open>
  What \<^verbatim>\<open>open_input\<close> returns: the no-stream result \<open>-3\<close> exactly when the container was opened
  and probed and the scan left the audio index negative. The video index is not looked at.
\<close>

lemma open_input_no_stream_iff:
  "fst (open_input L filename st) = - 3 \<longleftrightarrow>
     \<not> avformat_open_input L filename < 0 \<and> \<not> avformat_find_stream_info L < 0 \<and>
     sint (a_index (inputFile (snd (open_input L filename st)))) < 0"
  by (simp add: open_input_def Let_def)

text \<open>
  C1. The claim: the stream selection fails with the no-stream error if and only if neither an
  audio nor a video stream was selected; a container whose video stream was selected does not
  report the error. The code tests the audio index twice (line 97), so on a container with one
  video stream, whose decoder opens, the scan sets the video index to 0 and \<^verbatim>\<open>open_input\<close>
  still prints the message and returns \<open>-3\<close>.
\<close>

theorem open_input_video_only:
  "open_input video_2s_25fps ''in.mp4'' started =
     (- 3,
      \<lparr>inputFile = \<lparr>fmt_ctx = Some \<lparr>streams = [video_ctx]\<rparr>, v_index = 0, a_index = - 1\<rparr>,
       out = [Failed_stream_info],
       calls = [Av_register_all, Av_log_set_level, Avformat_open_input ''in.mp4'',
                Avformat_find_stream_info, Avcodec_find_decoder 28, Avcodec_open2 0]\<rparr>)"
  by (simp add: program_defs example_defs)

lemma video_blocks_append [simp]:
  "video_blocks (xs @ ys) = video_blocks xs + video_blocks ys"
  "audio_blocks (xs @ ys) = audio_blocks xs + audio_blocks ys"
  by (simp_all add: video_blocks_def audio_blocks_def)

text \<open>The decode loop on the two seconds of video, entered in the state \<^verbatim>\<open>open_input\<close> leaves
  (video index 0, container open): from read \<open>k\<close> on it prints the remaining \<open>50 - k\<close> video
  blocks, no audio block, and the end line, and returns.\<close>

lemma decode_loop_video_only:
  assumes "fmt_ctx (inputFile st) = Some (container video_2s_25fps)"
    and "v_index (inputFile st) = 0" and "k \<le> 50"
  shows "\<exists>st'. decode_loop video_2s_25fps k st = Some (Inr st') \<and>
    video_blocks (out st') = video_blocks (out st) + (50 - k) \<and>
    audio_blocks (out st') = audio_blocks (out st) \<and>
    count_list (out st') End_of_frame = count_list (out st) End_of_frame + 1"
  using assms
proof (induction "50 - k" arbitrary: k st)
  case 0
  then have k: "k = 50" by simp
  then have "read_ret (av_read_frame video_2s_25fps k) = AVERROR_EOF"
    by (simp add: example_defs)
  from decode_loop_Break [OF loop_body_eof [OF this]] k show ?case
    by (simp add: video_blocks_def audio_blocks_def)
next
  case (Suc n)
  then have k: "k < 50" and n: "n = 50 - Suc k" and le: "Suc k \<le> 50"
    by simp_all
  from k have rd: "av_read_frame video_2s_25fps k = packet 0"
    by (simp add: example_defs)
  have ne: "read_ret (av_read_frame video_2s_25fps k) \<noteq> AVERROR_EOF"
    by (simp add: rd packet_def AVERROR_EOF_def)
  have ro: "routed (inputFile st) (av_read_frame video_2s_25fps k)"
    using Suc.prems(2) by (simp add: rd packet_def routed_def)
  have ir: "in_range (container video_2s_25fps) (av_read_frame video_2s_25fps k)"
    by (simp add: rd in_range_def nb_streams_def example_defs)
  from loop_body_decode [OF ne ro Suc.prems(1) ir] obtain st1
    where st1: "loop_body video_2s_25fps k st = Continue st1" "inputFile st1 = inputFile st"
      "out st1 = out st @ report_lines (container video_2s_25fps) (av_read_frame video_2s_25fps k)"
    by blast
  have lines: "report_lines (container video_2s_25fps) (packet 0) =
      [Separator, Video_size 640 480, Video_sar 1 1]"
    by (simp add: report_lines_def example_defs)
  from Suc.hyps(1) [OF n, of st1] Suc.prems(1,2) st1(2) le
  obtain st' where st': "decode_loop video_2s_25fps (Suc k) st1 = Some (Inr st')"
    "video_blocks (out st') = video_blocks (out st1) + (50 - Suc k)"
    "audio_blocks (out st') = audio_blocks (out st1)"
    "count_list (out st') End_of_frame = count_list (out st1) End_of_frame + 1"
    by auto
  from st' st1(3) k decode_loop_Continue [OF st1(1)] show ?case
    by (intro exI [of _ st']) (simp add: rd lines video_blocks_def audio_blocks_def)
qed

text \<open>
  C2. The claim: for a container with one video stream and no audio stream, two seconds at 25
  frames a second, the run prints 50 video blocks, no audio block and one final end line. The
  decode loop would do so (\<open>decode_loop_video_only\<close>), but by the same test of line 97 the run
  never reaches it: it prints the no-stream message, releases and exits, with no video block and
  no end line.
\<close>

theorem main_video_only:
  "main video_2s_25fps [''sample04'', ''in.mp4''] =
     Some (Inr (0,
      \<lparr>inputFile = \<lparr>fmt_ctx = None, v_index = 0, a_index = - 1\<rparr>,
       out = [Failed_stream_info],
       calls = [Av_register_all, Av_log_set_level, Avformat_open_input ''in.mp4'',
                Avformat_find_stream_info, Avcodec_find_decoder 28, Avcodec_open2 0,
                Release, Avcodec_close 0, Avformat_close_input]\<rparr>))"
  by (simp add: program_defs example_defs)

end
